theory Spec2Isabelle
  imports Complex_Main "HOL-Library.Word" "HOL-Library.DAList" "HOL-Library.FSet"
begin

unbundle bit_operations_syntax

section \<open>Data transfer objects (dto.py)\<close>

text \<open>
  Python \<open>bytes\<close> are lists of 8-bit words, \<open>str\<close> is \<open>string\<close>, Python's unbounded
  \<open>int\<close> is \<open>int\<close>. Timestamps are Python floats holding epoch seconds; they are only
  compared, subtracted and copied, and are modelled as the (finite) real numbers they
  denote; the one subtraction, in \<open>get_or_create\<close>, is a parameter (see there).
  An insertion-ordered \<open>dict\<close> is an association list with distinct keys
  (\<open>DAList\<close>: a new key is appended, an existing key keeps its position).
\<close>

type_synonym byte = "8 word"
type_synonym bytes = "byte list"

record SegmentHandle =
  id_seg :: string
  sensor :: string
  start_ts :: real
  end_ts :: real
  path :: string
  compressor :: string

record PacketRecord =
  ts :: real
  src_ip :: string
  dst_ip :: string
  src_port :: int
  dst_port :: int
  transport :: string
  tcp_flags :: "int option"
  length_pkt :: int
  payload_preview :: "bytes option"

record GroupKey =
  key_src_ip :: string
  key_dst_ip :: string
  key_dst_port :: int
  key_transport :: string
  service :: string

text \<open>
  The flag histogram \<open>tcp_flags\<close> of an aggregate is a dict that is only ever created
  with the four keys syn, ack, rst, fin (\<open>_new_aggregate\<close>) and only ever updated at
  these keys: a record of four counters.
\<close>

record FlagCounts =
  syn :: int
  ack :: int
  rst :: int
  fin :: int

text \<open>
  \<open>payload_up\<close> and \<open>payload_dn\<close> are the private attributes \<open>_payload_up\<close> and
  \<open>_payload_dn\<close> that features.py attaches dynamically; \<open>None\<close> is "attribute absent".
\<close>

record GroupAggregate =
  key :: GroupKey
  first_ts :: real
  last_ts :: real
  pkts_up :: int
  pkts_dn :: int
  bytes_up :: int
  bytes_dn :: int
  agg_tcp_flags :: FlagCounts
  http_uri_tokens :: "string list option"
  ftp_cmd_counts :: "(string \<times> int) list option"
  smb_cmd_counts :: "(string \<times> int) list option"
  payload_up :: "bytes list option"
  payload_dn :: "bytes list option"

record ScanSummary =
  ss_src_ip :: string
  window :: "int \<times> int"
  ss_unique_dsts :: nat
  ss_unique_ports :: nat
  syn_only_ratio :: real
  ss_sample_targets :: "(string \<times> int) list"

section \<open>Binomial sampling of HTTP URI tokens (pipeline/sampling.py)\<close>

text \<open>
  The loop \<open>for t in other_tokens: if random.random() < p: sampled.append(t)\<close>.
  The random generator is the sequence \<open>draws\<close> of the values that successive calls of
  \<open>random.random()\<close> return; \<open>i\<close> is the number of calls made so far.
\<close>

fun bernoulli_keep :: "(nat \<Rightarrow> real) \<Rightarrow> real \<Rightarrow> nat \<Rightarrow> string list \<Rightarrow> string list" where
  "bernoulli_keep draws p i [] = []"
| "bernoulli_keep draws p i (t # tokens) =
     (if draws i < p then t # bernoulli_keep draws p (Suc i) tokens
      else bernoulli_keep draws p (Suc i) tokens)"

text \<open>
  \<open>apply_http_binomial_sampling(agg, budget=..., always_keep=...)\<close> mutates \<open>agg\<close> in
  place and returns a bool; the model returns the bool and the aggregate after the call.
  \<open>xs[:budget]\<close> is only reached with \<open>budget > 0\<close>, where it is \<open>take (nat budget) xs\<close>.
\<close>

definition apply_http_binomial_sampling ::
  "(nat \<Rightarrow> real) \<Rightarrow> GroupAggregate \<Rightarrow> int \<Rightarrow> string list \<Rightarrow> bool \<times> GroupAggregate" where
  "apply_http_binomial_sampling draws agg budget always_keep =
     (case http_uri_tokens agg of
        None \<Rightarrow> (False, agg)
      | Some tokens \<Rightarrow>
          if tokens = [] \<or> budget \<le> 0 then (False, agg)
          else
            let ak_set = set always_keep;
                ak_tokens = filter (\<lambda>t. t \<in> ak_set) tokens;
                other_tokens = filter (\<lambda>t. t \<notin> ak_set) tokens
            in if int (length tokens) \<le> budget then (False, agg)
               else
                 let remaining_budget = max 0 (budget - int (length ak_tokens))
                 in if length other_tokens = 0
                    then (True, agg\<lparr>http_uri_tokens := Some (take (nat budget) ak_tokens)\<rparr>)
                    else
                      let p = (if remaining_budget > 0
                               then min 1 (real_of_int remaining_budget / real (length other_tokens))
                               else 0);
                          sampled = (if p \<ge> 1 then other_tokens
                                     else if p \<le> 0 then []
                                     else bernoulli_keep draws p 0 other_tokens);
                          combined = ak_tokens @ sampled;
                          combined = (if int (length combined) > budget
                                      then take (nat budget) combined else combined)
                      in (True, agg\<lparr>http_uri_tokens := Some combined\<rparr>))"


text \<open>
  The number of tokens of the list that belong to the always-keep lexicon
  (\<open>len(ak_tokens)\<close> in the source).
\<close>

definition always_keep_count :: "string list \<Rightarrow> string list \<Rightarrow> nat" where
  "always_keep_count always_keep tokens = length (filter (\<lambda>t. t \<in> set always_keep) tokens)"

section \<open>Grouping and aggregate lifecycle (pipeline/grouping.py)\<close>

definition PORT_SERVICE_MAP :: "(int \<times> string) list" where
  "PORT_SERVICE_MAP =
     [(80, ''http''), (8080, ''http''), (21, ''ftp''), (445, ''smb''), (22, ''ssh''), (53, ''dns'')]"

definition UNKNOWN :: string where
  "UNKNOWN = ''unknown''"

definition infer_service :: "int \<Rightarrow> string" where
  "infer_service port = (case map_of PORT_SERVICE_MAP port of None \<Rightarrow> UNKNOWN | Some s \<Rightarrow> s)"

datatype Direction = Up | Dn

definition group_direction :: "PacketRecord \<Rightarrow> GroupKey \<Rightarrow> Direction" where
  "group_direction pkt k =
     (if src_ip pkt = key_src_ip k \<and> dst_ip pkt = key_dst_ip k then Up
      else if src_ip pkt = key_dst_ip k \<and> dst_ip pkt = key_src_ip k then Dn
      else Up)"

record AggregatorShard =
  idle :: real
  open_map :: "(GroupKey, GroupAggregate) alist"
  finalized :: "GroupAggregate list"

definition AggregatorShard_init :: "int \<Rightarrow> AggregatorShard" where
  "AggregatorShard_init idle_split_seconds =
     \<lparr>idle = real_of_int idle_split_seconds, open_map = DAList.empty, finalized = []\<rparr>"

definition new_aggregate :: "GroupKey \<Rightarrow> real \<Rightarrow> GroupAggregate" where
  "new_aggregate k t =
     \<lparr>key = k, first_ts = t, last_ts = t,
      pkts_up = 0, pkts_dn = 0, bytes_up = 0, bytes_dn = 0,
      agg_tcp_flags = \<lparr>syn = 0, ack = 0, rst = 0, fin = 0\<rparr>,
      http_uri_tokens = None, ftp_cmd_counts = None, smb_cmd_counts = None,
      payload_up = None, payload_dn = None\<rparr>"

text \<open>
  The roll test \<open>ts - agg.last_ts > self._idle\<close> subtracts two doubles, and Python rounds
  the exact difference to a double before it is compared. \<open>fsub\<close> is that subtraction
  of doubles, a parameter of the model. The one fact about it that the proofs use is
  \<open>sign_exact\<close>: a positive result means the first operand is the larger. IEEE-754
  subtraction has it, since rounding to nearest keeps the sign of a difference and,
  with gradual underflow, gives zero only for equal operands.
\<close>

definition sign_exact :: "(real \<Rightarrow> real \<Rightarrow> real) \<Rightarrow> bool" where
  "sign_exact fsub = (\<forall>a b. 0 < fsub a b \<longrightarrow> b < a)"

text \<open>
  \<open>get_or_create\<close> returns the aggregate that is now open for the key and mutates the
  shard; the model returns both. The returned object is the one stored in the shard.
\<close>

definition get_or_create ::
  "(real \<Rightarrow> real \<Rightarrow> real) \<Rightarrow> AggregatorShard \<Rightarrow> GroupKey \<Rightarrow> real
     \<Rightarrow> GroupAggregate \<times> AggregatorShard" where
  "get_or_create fsub shard k t =
     (case DAList.lookup (open_map shard) k of
        None \<Rightarrow>
          let agg = new_aggregate k t
          in (agg, shard\<lparr>open_map := DAList.update k agg (open_map shard)\<rparr>)
      | Some agg \<Rightarrow>
          if fsub t (last_ts agg) > idle shard
          then let agg' = new_aggregate k t
               in (agg', shard\<lparr>finalized := finalized shard @ [agg],
                                open_map := DAList.update k agg' (open_map shard)\<rparr>)
          else (agg, shard))"

definition finalize_all :: "AggregatorShard \<Rightarrow> int \<Rightarrow> GroupAggregate list \<times> AggregatorShard" where
  "finalize_all shard hour_end =
     (finalized shard @ map snd (DAList.impl_of (open_map shard)),
      shard\<lparr>open_map := DAList.empty, finalized := []\<rparr>)"

section \<open>Feature construction (pipeline/features.py)\<close>

definition TCP_FIN :: int where "TCP_FIN = 0x01"
definition TCP_SYN :: int where "TCP_SYN = 0x02"
definition TCP_RST :: int where "TCP_RST = 0x04"
definition TCP_ACK :: int where "TCP_ACK = 0x10"

definition MAX_PREVIEWS_PER_DIR :: nat where
  "MAX_PREVIEWS_PER_DIR = 12"

text \<open>The four parts of \<open>update_aggregate\<close>, in the order of the source.\<close>

definition update_time_bounds :: "GroupAggregate \<Rightarrow> PacketRecord \<Rightarrow> GroupAggregate" where
  "update_time_bounds agg pkt =
     (let agg = (if ts pkt < first_ts agg then agg\<lparr>first_ts := ts pkt\<rparr> else agg)
      in if ts pkt > last_ts agg then agg\<lparr>last_ts := ts pkt\<rparr> else agg)"

definition update_counters :: "GroupAggregate \<Rightarrow> PacketRecord \<Rightarrow> Direction \<Rightarrow> GroupAggregate" where
  "update_counters agg pkt direction =
     (if direction = Up
      then agg\<lparr>pkts_up := pkts_up agg + 1, bytes_up := bytes_up agg + length_pkt pkt\<rparr>
      else agg\<lparr>pkts_dn := pkts_dn agg + 1, bytes_dn := bytes_dn agg + length_pkt pkt\<rparr>)"

definition count_flags :: "int \<Rightarrow> FlagCounts \<Rightarrow> FlagCounts" where
  "count_flags flags h =
     (let h = (if flags AND TCP_SYN \<noteq> 0 then h\<lparr>syn := syn h + 1\<rparr> else h);
          h = (if flags AND TCP_ACK \<noteq> 0 then h\<lparr>ack := ack h + 1\<rparr> else h);
          h = (if flags AND TCP_RST \<noteq> 0 then h\<lparr>rst := rst h + 1\<rparr> else h)
      in if flags AND TCP_FIN \<noteq> 0 then h\<lparr>fin := fin h + 1\<rparr> else h)"

definition update_flags :: "GroupAggregate \<Rightarrow> PacketRecord \<Rightarrow> GroupAggregate" where
  "update_flags agg pkt =
     (case tcp_flags pkt of
        None \<Rightarrow> agg
      | Some flags \<Rightarrow> agg\<lparr>agg_tcp_flags := count_flags flags (agg_tcp_flags agg)\<rparr>)"

text \<open>
  \<open>buf = getattr(agg, "_payload_up", [])\<close>, then \<open>setattr\<close> when \<open>buf\<close> is empty, then
  \<open>append\<close> below the cap: afterwards the attribute exists and holds \<open>buf\<close>, extended or not.
  \<open>if pkt.payload_preview:\<close> is false for \<open>None\<close> and for empty bytes.
\<close>

definition push_preview :: "bytes list option \<Rightarrow> bytes \<Rightarrow> bytes list option" where
  "push_preview attr pv =
     (let buf = (case attr of None \<Rightarrow> [] | Some b \<Rightarrow> b)
      in Some (if length buf < MAX_PREVIEWS_PER_DIR then buf @ [pv] else buf))"

definition stash_preview :: "GroupAggregate \<Rightarrow> PacketRecord \<Rightarrow> Direction \<Rightarrow> GroupAggregate" where
  "stash_preview agg pkt direction =
     (case payload_preview pkt of
        None \<Rightarrow> agg
      | Some pv \<Rightarrow>
          if pv = [] then agg
          else if direction = Up
          then agg\<lparr>payload_up := push_preview (payload_up agg) pv\<rparr>
          else agg\<lparr>payload_dn := push_preview (payload_dn agg) pv\<rparr>)"

definition update_aggregate :: "GroupAggregate \<Rightarrow> PacketRecord \<Rightarrow> Direction \<Rightarrow> GroupAggregate" where
  "update_aggregate agg pkt direction =
     stash_preview (update_flags (update_counters (update_time_bounds agg pkt) pkt direction) pkt)
       pkt direction"

text \<open>A sequence of \<open>update_aggregate\<close> calls on one aggregate.\<close>

fun update_all :: "GroupAggregate \<Rightarrow> (PacketRecord \<times> Direction) list \<Rightarrow> GroupAggregate" where
  "update_all agg [] = agg"
| "update_all agg ((pkt, direction) # rest) = update_all (update_aggregate agg pkt direction) rest"

text \<open>The contents of a preview buffer, an absent attribute read as \<open>getattr(agg, name, [])\<close>.\<close>

definition previews_of :: "Direction \<Rightarrow> GroupAggregate \<Rightarrow> bytes list" where
  "previews_of direction agg =
     (case (if direction = Up then payload_up agg else payload_dn agg) of
        None \<Rightarrow> [] | Some b \<Rightarrow> b)"

text \<open>The non-empty previews that a call sequence carries in one direction, in order.\<close>

fun previews_seen :: "Direction \<Rightarrow> (PacketRecord \<times> Direction) list \<Rightarrow> bytes list" where
  "previews_seen d [] = []"
| "previews_seen d ((pkt, direction) # rest) =
     (case payload_preview pkt of
        None \<Rightarrow> previews_seen d rest
      | Some pv \<Rightarrow> if pv \<noteq> [] \<and> direction = d then pv # previews_seen d rest
                   else previews_seen d rest)"

text \<open>
  Modelled from the spec: the per-packet routing step of the orchestrator
  (\<open>orchestration/runner.py\<close> is not among the sources). Section 4.7 of the spec: each
  packet is fed to the grouping shard "keyed by a GroupKey", that is
  \<open>agg = shard.get_or_create(key, pkt.ts)\<close> followed by
  \<open>update_aggregate(agg, pkt, group_direction(pkt, key))\<close>. The aggregate returned by
  \<open>get_or_create\<close> is the object held in the shard's open map, so its in-place update
  is written back there.
\<close>

definition route_packet ::
  "(real \<Rightarrow> real \<Rightarrow> real) \<Rightarrow> AggregatorShard \<Rightarrow> GroupKey \<Rightarrow> PacketRecord \<Rightarrow> AggregatorShard" where
  "route_packet fsub shard k pkt =
     (case get_or_create fsub shard k (ts pkt) of
        (agg, shard') \<Rightarrow>
          shard'\<lparr>open_map :=
            DAList.update k (update_aggregate agg pkt (group_direction pkt k)) (open_map shard')\<rparr>)"

fun route_packets ::
  "(real \<Rightarrow> real \<Rightarrow> real) \<Rightarrow> AggregatorShard \<Rightarrow> GroupKey \<Rightarrow> PacketRecord list \<Rightarrow> AggregatorShard" where
  "route_packets fsub shard k [] = shard"
| "route_packets fsub shard k (pkt # pkts) = route_packets fsub (route_packet fsub shard k pkt) k pkts"

text \<open>
  A list of timestamps has no idle gap when no element, less its predecessor as the code
  subtracts them, exceeds \<open>idle\<close> seconds.
\<close>

fun no_idle_gap :: "(real \<Rightarrow> real \<Rightarrow> real) \<Rightarrow> real \<Rightarrow> real list \<Rightarrow> bool" where
  "no_idle_gap fsub i (a # b # rest) = (fsub b a \<le> i \<and> no_idle_gap fsub i (b # rest))"
| "no_idle_gap fsub i _ = True"

section \<open>Scan gate (pipeline/scan.py)\<close>

record SourceStats =
  unique_dsts :: "string fset"
  unique_ports :: "int fset"
  syn_only_pkts :: int
  tcp_pkts :: int
  sample_targets :: "(string \<times> int) list"

record ScanGate =
  threshold :: int
  cont :: real
  n_estimators :: int
  random_state :: "int option"
  sample_cap :: int
  by_src :: "(string, SourceStats) alist"

definition ScanGate_init :: "int \<Rightarrow> real \<Rightarrow> int \<Rightarrow> int option \<Rightarrow> int \<Rightarrow> ScanGate" where
  "ScanGate_init threshold_unique_dsts iforest_contamination iforest_estimators
       iforest_random_state sample_targets_cap =
     \<lparr>threshold = threshold_unique_dsts, cont = iforest_contamination,
      n_estimators = iforest_estimators, random_state = iforest_random_state,
      sample_cap = sample_targets_cap, by_src = DAList.empty\<rparr>"

definition empty_stats :: SourceStats where
  "empty_stats =
     \<lparr>unique_dsts = {||}, unique_ports = {||}, syn_only_pkts = 0, tcp_pkts = 0, sample_targets = []\<rparr>"

text \<open>The statistics object \<open>s\<close> of \<open>observe_packet\<close> after the call.\<close>

definition observe_stats :: "int \<Rightarrow> SourceStats \<Rightarrow> PacketRecord \<Rightarrow> GroupKey \<Rightarrow> SourceStats" where
  "observe_stats cap s pkt k =
     (let s = s\<lparr>unique_dsts := finsert (key_dst_ip k) (unique_dsts s)\<rparr>;
          s = s\<lparr>unique_ports := finsert (key_dst_port k) (unique_ports s)\<rparr>;
          s = (if int (length (sample_targets s)) < cap
               then s\<lparr>sample_targets := sample_targets s @ [(key_dst_ip k, key_dst_port k)]\<rparr>
               else s)
      in case tcp_flags pkt of
           None \<Rightarrow> s
         | Some flags \<Rightarrow>
             let s = s\<lparr>tcp_pkts := tcp_pkts s + 1\<rparr>
             in if flags AND TCP_SYN \<noteq> 0 \<and> \<not> (flags AND TCP_ACK \<noteq> 0)
                then s\<lparr>syn_only_pkts := syn_only_pkts s + 1\<rparr>
                else s)"

definition observe_packet :: "ScanGate \<Rightarrow> PacketRecord \<Rightarrow> GroupKey \<Rightarrow> ScanGate" where
  "observe_packet g pkt k =
     (let src = key_src_ip k;
          s = (case DAList.lookup (by_src g) src of None \<Rightarrow> empty_stats | Some s \<Rightarrow> s)
      in g\<lparr>by_src := DAList.update src (observe_stats (sample_cap g) s pkt k) (by_src g)\<rparr>)"

definition candidates :: "ScanGate \<Rightarrow> string list" where
  "candidates g =
     map fst (filter (\<lambda>(src, s). int (fcard (unique_dsts s)) > threshold g)
                (DAList.impl_of (by_src g)))"

text \<open>
  The unique-destination count that the gate holds for a source (\<open>len(s.unique_dsts)\<close>),
  if the source has been observed.
\<close>

definition unique_dst_count :: "ScanGate \<Rightarrow> string \<Rightarrow> nat option" where
  "unique_dst_count g src = map_option (\<lambda>s. fcard (unique_dsts s)) (DAList.lookup (by_src g) src)"

datatype py_error = KeyError | OSError

record RepetitiveSet =
  summaries :: "ScanSummary list"
  source_ips :: "string fset"

text \<open>
  The first loop of \<open>split_repetitive_vs_outliers\<close>: the candidates with their
  \<open>syn_only_ratio\<close>, in order (\<open>sources\<close> and \<open>ratios\<close>; \<open>X\<close> is the list of the ratios,
  each in a list of its own). \<open>self._by_src[src]\<close> raises \<open>KeyError\<close> on a missing key.
\<close>

fun candidate_ratios :: "ScanGate \<Rightarrow> string list \<Rightarrow> py_error + (string \<times> real) list" where
  "candidate_ratios g [] = Inr []"
| "candidate_ratios g (src # cands) =
     (case DAList.lookup (by_src g) src of
        None \<Rightarrow> Inl KeyError
      | Some s \<Rightarrow>
          (case candidate_ratios g cands of
             Inl e \<Rightarrow> Inl e
           | Inr rs \<Rightarrow>
               Inr ((src, if tcp_pkts s > 0
                          then real_of_int (syn_only_pkts s) / real_of_int (tcp_pkts s)
                          else 0) # rs)))"

text \<open>
  The second loop, over \<open>zip(sources, labels)\<close>; the accumulator holds
  \<open>repetitive_summaries\<close>, \<open>repetitive_sources\<close> and \<open>outliers\<close>.
\<close>

fun label_sources ::
  "ScanGate \<Rightarrow> (string \<times> real) list \<Rightarrow> (string \<times> int) list
     \<Rightarrow> ScanSummary list \<times> string fset \<times> string fset
     \<Rightarrow> py_error + (ScanSummary list \<times> string fset \<times> string fset)" where
  "label_sources g ratios [] acc = Inr acc"
| "label_sources g ratios ((src, lbl) # rest) (acc_summaries, rep, outl) =
     (case DAList.lookup (by_src g) src of
        None \<Rightarrow> Inl KeyError
      | Some s \<Rightarrow>
          if lbl = 1
          then (case map_of ratios src of
                  None \<Rightarrow> Inl KeyError
                | Some ratio \<Rightarrow>
                    label_sources g ratios rest
                      (acc_summaries @ [\<lparr>ss_src_ip = src, window = (0, 0),
                                ss_unique_dsts = fcard (unique_dsts s),
                                ss_unique_ports = fcard (unique_ports s),
                                syn_only_ratio = ratio,
                                ss_sample_targets = sample_targets s\<rparr>],
                       finsert src rep, outl))
          else label_sources g ratios rest (acc_summaries, rep, finsert src outl))"

text \<open>
  \<open>IsolationForest(n_estimators, contamination, random_state).fit_predict(X)\<close> belongs to
  scikit-learn; it is the parameter \<open>fit_predict\<close>, any function from the three settings
  and the feature vectors to a list of labels.
\<close>

definition split_repetitive_vs_outliers ::
  "(int \<Rightarrow> real \<Rightarrow> int option \<Rightarrow> real list list \<Rightarrow> int list) \<Rightarrow> ScanGate
     \<Rightarrow> py_error + (RepetitiveSet \<times> string fset)" where
  "split_repetitive_vs_outliers fit_predict g =
     (let cands = candidates g
      in if cands = [] then Inr (\<lparr>summaries = [], source_ips = {||}\<rparr>, {||})
         else
           (case candidate_ratios g cands of
              Inl e \<Rightarrow> Inl e
            | Inr ratios \<Rightarrow>
                (let X = map (\<lambda>(src, ratio). [ratio]) ratios;
                     sources = map fst ratios
                 in if length X < 3
                    then Inr (\<lparr>summaries = [], source_ips = {||}\<rparr>, fset_of_list sources)
                    else
                      (let labels = fit_predict (n_estimators g) (cont g) (random_state g) X
                       in (case label_sources g ratios (zip sources labels) ([], {||}, {||}) of
                             Inl e \<Rightarrow> Inl e
                           | Inr (acc_summaries, rep, outl) \<Rightarrow>
                               Inr (\<lparr>summaries = acc_summaries, source_ips = rep\<rparr>, outl))))))"

section \<open>Segment validation (intake/validator.py)\<close>

definition MAGIC_PCAP_USEC_BE :: bytes where "MAGIC_PCAP_USEC_BE = [0xa1, 0xb2, 0xc3, 0xd4]"
definition MAGIC_PCAP_USEC_LE :: bytes where "MAGIC_PCAP_USEC_LE = [0xd4, 0xc3, 0xb2, 0xa1]"
definition MAGIC_PCAP_NSEC_BE :: bytes where "MAGIC_PCAP_NSEC_BE = [0xa1, 0xb2, 0x3c, 0x4d]"
definition MAGIC_PCAP_NSEC_LE :: bytes where "MAGIC_PCAP_NSEC_LE = [0x4d, 0x3c, 0xb2, 0xa1]"
definition MAGIC_PCAPNG :: bytes where "MAGIC_PCAPNG = [0x0a, 0x0d, 0x0d, 0x0a]"
definition MAGIC_GZIP :: bytes where "MAGIC_GZIP = [0x1f, 0x8b]"
definition MAGIC_ZSTD :: bytes where "MAGIC_ZSTD = [0x28, 0xb5, 0x2f, 0xfd]"

text \<open>
  The file system as \<open>os.stat\<close> and \<open>open\<close> see it. A path has no entry when \<open>os.stat\<close>
  raises (\<open>FileNotFoundError\<close> or another \<open>OSError\<close>). An entry that \<open>os.stat\<close> accepts
  is a readable regular file with its contents (\<open>st_size\<close> is their length), or an entry
  of some \<open>st_size\<close> that \<open>open(path, "rb")\<close> refuses with an \<open>OSError\<close>: a directory
  (\<open>IsADirectoryError\<close>) or a file without read permission (\<open>PermissionError\<close>).
\<close>

datatype fs_entry = Regular bytes | Unopenable nat

type_synonym filesystem = "string \<Rightarrow> fs_entry option"

definition st_size :: "fs_entry \<Rightarrow> nat" where
  "st_size e = (case e of Regular content \<Rightarrow> length content | Unopenable n \<Rightarrow> n)"

definition read_head :: "fs_entry \<Rightarrow> nat \<Rightarrow> py_error + bytes" where
  "read_head e n = (case e of Regular content \<Rightarrow> Inr (take n content) | Unopenable _ \<Rightarrow> Inl OSError)"

definition looks_like_uncompressed_pcap :: "bytes \<Rightarrow> bool" where
  "looks_like_uncompressed_pcap head =
     (if length head < 4 then False
      else
        let sig4 = take 4 head
        in if sig4 \<in> set [MAGIC_PCAP_USEC_BE, MAGIC_PCAP_USEC_LE, MAGIC_PCAP_NSEC_BE, MAGIC_PCAP_NSEC_LE]
           then True
           else if sig4 = MAGIC_PCAPNG then True
           else False)"

definition looks_like_gzip :: "bytes \<Rightarrow> bool" where
  "looks_like_gzip head = (length head \<ge> 2 \<and> take 2 head = MAGIC_GZIP)"

definition looks_like_zstd :: "bytes \<Rightarrow> bool" where
  "looks_like_zstd head = (length head \<ge> 4 \<and> take 4 head = MAGIC_ZSTD)"

text \<open>
  Only \<open>os.stat\<close> sits inside the \<open>try\<close>; an exception of \<open>_read_head\<close> leaves
  \<open>validate_segment\<close> (\<open>Inl\<close>).
\<close>

definition validate_segment :: "filesystem \<Rightarrow> SegmentHandle \<Rightarrow> py_error + bool" where
  "validate_segment fs seg =
     (case fs (path seg) of
        None \<Rightarrow> Inr False
      | Some st \<Rightarrow>
          if st_size st < 24 then Inr False
          else
            (case read_head st 16 of
               Inl e \<Rightarrow> Inl e
             | Inr head \<Rightarrow>
                 if compressor seg = ''none'' then Inr (looks_like_uncompressed_pcap head)
                 else if compressor seg = ''gzip'' then Inr (looks_like_gzip head)
                 else if compressor seg = ''zstd'' then Inr (looks_like_zstd head)
                 else Inr False))"

section \<open>Quantization (pipeline/quantize.py)\<close>

text \<open>
  \<open>_log_bin(x, base)\<close> is \<open>int(math.floor(math.log(x, base)))\<close> behind two guards.
  \<open>math.log\<close> belongs to the C library and works on doubles; it is the parameter
  \<open>mlog\<close>, any function from the integer and the base to the double it returns.
\<close>

definition log_bin :: "(int \<Rightarrow> real \<Rightarrow> real) \<Rightarrow> int \<Rightarrow> real \<Rightarrow> int" where
  "log_bin mlog x base =
     (if x \<le> 0 then 0
      else
        let base = (if base \<le> 1 then 2 else base)
        in \<lfloor>mlog x base\<rfloor>)"

text \<open>The logarithm without rounding, for comparison.\<close>

definition exact_log :: "int \<Rightarrow> real \<Rightarrow> real" where
  "exact_log x base = log base (real_of_int x)"


text \<open>A sequence of \<open>observe_packet\<close> calls on one gate.\<close>

fun observe_all :: "ScanGate \<Rightarrow> (PacketRecord \<times> GroupKey) list \<Rightarrow> ScanGate" where
  "observe_all g [] = g"
| "observe_all g ((pkt, k) # rest) = observe_all (observe_packet g pkt k) rest"

text \<open>The destinations that a source contacts in a sequence of observations.\<close>

definition dsts_contacted :: "string \<Rightarrow> (PacketRecord \<times> GroupKey) list \<Rightarrow> string fset" where
  "dsts_contacted src obs =
     fset_of_list (map (\<lambda>(pkt, k). key_dst_ip k) (filter (\<lambda>(pkt, k). key_src_ip k = src) obs))"

text \<open>The destinations a gate has recorded for a source, none for an unknown source.\<close>

definition dsts_known :: "ScanGate \<Rightarrow> string \<Rightarrow> string fset" where
  "dsts_known g src = (case DAList.lookup (by_src g) src of None \<Rightarrow> {||} | Some s \<Rightarrow> unique_dsts s)"

text \<open>
  The statistics object that \<open>observe_packet\<close> starts from: the one stored for the
  source, or a new empty one.
\<close>

definition stats_before :: "ScanGate \<Rightarrow> string \<Rightarrow> SourceStats" where
  "stats_before g src = (case DAList.lookup (by_src g) src of None \<Rightarrow> empty_stats | Some s \<Rightarrow> s)"

section \<open>Concrete inputs\<close>

text \<open>A random generator whose every draw is \<open>r\<close>.\<close>

definition const_draws :: "real \<Rightarrow> nat \<Rightarrow> real" where
  "const_draws r i = r"

definition example_key :: GroupKey where
  "example_key = \<lparr>key_src_ip = ''10.0.0.1'', key_dst_ip = ''10.0.0.2'', key_dst_port = 80,
                  key_transport = ''tcp'', service = ''http''\<rparr>"

definition agg_with_tokens :: "string list \<Rightarrow> GroupAggregate" where
  "agg_with_tokens tokens = (new_aggregate example_key 0)\<lparr>http_uri_tokens := Some tokens\<rparr>"

text \<open>A TCP SYN packet of the example key's upstream direction, and a reply.\<close>

definition pkt_at :: "real \<Rightarrow> PacketRecord" where
  "pkt_at t = \<lparr>ts = t, src_ip = ''10.0.0.1'', dst_ip = ''10.0.0.2'', src_port = 40000,
              dst_port = 80, transport = ''tcp'', tcp_flags = Some 2, length_pkt = 60,
              payload_preview = None\<rparr>"

definition reply_at :: "real \<Rightarrow> PacketRecord" where
  "reply_at t = \<lparr>ts = t, src_ip = ''10.0.0.2'', dst_ip = ''10.0.0.1'', src_port = 80,
                dst_port = 40000, transport = ''tcp'', tcp_flags = Some 18, length_pkt = 60,
                payload_preview = None\<rparr>"

definition preview_pkt :: "byte \<Rightarrow> PacketRecord" where
  "preview_pkt b = (pkt_at 1)\<lparr>tcp_flags := Some 24, payload_preview := Some [b]\<rparr>"

definition twelve_up_calls :: "(PacketRecord \<times> Direction) list" where
  "twelve_up_calls =
     [(preview_pkt 1, Up), (preview_pkt 2, Up), (preview_pkt 3, Up), (preview_pkt 4, Up),
      (preview_pkt 5, Up), (preview_pkt 6, Up), (preview_pkt 7, Up), (preview_pkt 8, Up),
      (preview_pkt 9, Up), (preview_pkt 10, Up), (preview_pkt 11, Up), (preview_pkt 12, Up)]"

text \<open>
  The subtraction of two doubles whose difference is again a double is exact; so it is
  for the whole-second timestamps of the inputs below.
\<close>

definition exact_sub :: "real \<Rightarrow> real \<Rightarrow> real" where
  "exact_sub a b = a - b"

text \<open>A shard with the example key opened at second 5, for an idle threshold.\<close>

definition shard_opened_at_5 :: "int \<Rightarrow> AggregatorShard" where
  "shard_opened_at_5 idle_split_seconds =
     snd (get_or_create exact_sub (AggregatorShard_init idle_split_seconds) example_key 5)"

text \<open>A gate with the default settings that has observed nothing.\<close>

definition empty_gate :: ScanGate where
  "empty_gate = ScanGate_init 50 (14 / 100) 256 (Some 42) 20"

text \<open>Source a contacts x, y and z; source b contacts x and y.\<close>

definition key_from_to :: "string \<Rightarrow> string \<Rightarrow> GroupKey" where
  "key_from_to src dst = \<lparr>key_src_ip = src, key_dst_ip = dst, key_dst_port = 80,
                          key_transport = ''tcp'', service = ''http''\<rparr>"

definition five_observations :: "(PacketRecord \<times> GroupKey) list" where
  "five_observations =
     [(pkt_at 0, key_from_to ''a'' ''x''), (pkt_at 1, key_from_to ''a'' ''y''),
      (pkt_at 2, key_from_to ''a'' ''z''), (pkt_at 3, key_from_to ''b'' ''x''),
      (pkt_at 4, key_from_to ''b'' ''y'')]"

definition gate_with_threshold :: "int \<Rightarrow> ScanGate" where
  "gate_with_threshold n = observe_all (ScanGate_init n (14 / 100) 256 (Some 42) 20) five_observations"

text \<open>An anomaly model that labels every point an inlier.\<close>

definition all_inliers :: "int \<Rightarrow> real \<Rightarrow> int option \<Rightarrow> real list list \<Rightarrow> int list" where
  "all_inliers n_est contamination seed X = map (\<lambda>x. 1) X"

text \<open>
  A file system with a zero-byte file, a 10-byte file, a 24-byte classic PCAP global
  header, and an entry of 4096 bytes that cannot be opened for reading.
\<close>

definition classic_pcap_header :: bytes where
  "classic_pcap_header =
     [0xa1, 0xb2, 0xc3, 0xd4, 0x00, 0x02, 0x00, 0x04, 0x00, 0x00, 0x00, 0x00,
      0x00, 0x00, 0x00, 0x00, 0x00, 0x04, 0x00, 0x00, 0x00, 0x00, 0x00, 0x01]"

definition example_fs :: filesystem where
  "example_fs p =
     (if p = ''/cap/empty.pcap'' then Some (Regular [])
      else if p = ''/cap/ten.pcap'' then Some (Regular [0, 0, 0, 0, 0, 0, 0, 0, 0, 0])
      else if p = ''/cap/ok.pcap'' then Some (Regular classic_pcap_header)
      else if p = ''/cap/locked.pcap'' then Some (Unopenable 4096)
      else None)"

definition segment_at :: "string \<Rightarrow> string \<Rightarrow> SegmentHandle" where
  "segment_at p c = \<lparr>id_seg = p, sensor = ''s1'', start_ts = 0, end_ts = 3600, path = p, compressor = c\<rparr>"

text \<open>
  A \<open>math.log\<close> that returns for \<open>math.log(1000, 10.0)\<close> the double that CPython
  returns there, 2.9999999999999996 (the double next below 3, \<open>3 - 2^-51\<close>: the quotient
  of the doubles nearest to ln 1000 and ln 10), and the real logarithm elsewhere.
\<close>

definition math_log_observed :: "int \<Rightarrow> real \<Rightarrow> real" where
  "math_log_observed x base =
     (if x = 1000 \<and> base = 10 then 3 - 1 / 2 ^ 51 else log base (real_of_int x))"

section \<open>Properties of the sampling step\<close>

lemma sampling_skipped:
  assumes "http_uri_tokens agg = None \<or> http_uri_tokens agg = Some [] \<or> budget \<le> 0
           \<or> (\<exists>tokens. http_uri_tokens agg = Some tokens \<and> int (length tokens) \<le> budget)"
  shows "apply_http_binomial_sampling draws agg budget always_keep = (False, agg)"
proof (cases "http_uri_tokens agg")
  case None
  then show ?thesis by (simp add: apply_http_binomial_sampling_def)
next
  case (Some tokens)
  with assms have "tokens = [] \<or> budget \<le> 0 \<or> int (length tokens) \<le> budget" by auto
  then consider "tokens = [] \<or> budget \<le> 0" | "\<not> (tokens = [] \<or> budget \<le> 0)" "int (length tokens) \<le> budget"
    by blast
  then show ?thesis
  proof cases
    case 1
    then have "(tokens = [] \<or> budget \<le> 0) = True" by simp
    then show ?thesis
      unfolding apply_http_binomial_sampling_def Some option.case by (simp only: if_True)
  next
    case 2
    then have a: "(tokens = [] \<or> budget \<le> 0) = False" and b: "(int (length tokens) \<le> budget) = True" by simp_all
    show ?thesis
      unfolding apply_http_binomial_sampling_def Let_def Some option.case a b by (simp only: if_True if_False)
  qed
qed

lemma sampling_applied:
  assumes "http_uri_tokens agg = Some tokens" "0 < budget" "budget < int (length tokens)"
  shows "\<exists>sampled. apply_http_binomial_sampling draws agg budget always_keep =
           (True, agg\<lparr>http_uri_tokens :=
              Some (take (nat budget) (filter (\<lambda>t. t \<in> set always_keep) tokens @ sampled))\<rparr>)"
proof -
  let ?ak = "filter (\<lambda>t. t \<in> set always_keep) tokens"
  have ne: "tokens \<noteq> []" using assms by auto
  have tk: "\<And>xs::string list. (if budget < int (length xs) then take (nat budget) xs else xs) = take (nat budget) xs"
    by auto
  show ?thesis
  proof (cases "filter (\<lambda>t. t \<notin> set always_keep) tokens = []")
    case True
    then have "apply_http_binomial_sampling draws agg budget always_keep =
        (True, agg\<lparr>http_uri_tokens := Some (take (nat budget) (?ak @ []))\<rparr>)"
      using assms ne by (simp add: apply_http_binomial_sampling_def Let_def)
    then show ?thesis by blast
  next
    case False
    have c1: "(tokens = [] \<or> budget \<le> 0) = False" using ne assms by simp
    have c2: "(int (length tokens) \<le> budget) = False" using assms by simp
    have c3: "(length (filter (\<lambda>t. t \<notin> set always_keep) tokens) = 0) = False"
      using False by simp
    show ?thesis
      unfolding apply_http_binomial_sampling_def Let_def assms(1) option.case c1 c2 c3 if_False tk
      by blast
  qed
qed


text \<open>
  Claim C10. \<open>apply_http_binomial_sampling\<close> changes the aggregate only when it reports
  so: if it returns False the aggregate is the one it was given; in every case no field
  other than \<open>http_uri_tokens\<close> differs; and it returns False exactly when the token list
  is absent or empty, the budget is not positive, or the token count is within the budget.
\<close>

theorem sampling_frame:
  "(let r = apply_http_binomial_sampling draws agg budget always_keep
    in (\<not> fst r \<longrightarrow> snd r = agg)
     \<and> snd r = agg\<lparr>http_uri_tokens := http_uri_tokens (snd r)\<rparr>
     \<and> (\<not> fst r \<longleftrightarrow>
          (case http_uri_tokens agg of
             None \<Rightarrow> True
           | Some tokens \<Rightarrow> tokens = [] \<or> budget \<le> 0 \<or> int (length tokens) \<le> budget)))"
proof (cases "http_uri_tokens agg = None \<or> http_uri_tokens agg = Some [] \<or> budget \<le> 0
           \<or> (\<exists>tokens. http_uri_tokens agg = Some tokens \<and> int (length tokens) \<le> budget)")
  case True
  have r: "apply_http_binomial_sampling draws agg budget always_keep = (False, agg)"
    by (rule sampling_skipped [OF True])
  have "case http_uri_tokens agg of None \<Rightarrow> True
           | Some tokens \<Rightarrow> tokens = [] \<or> budget \<le> 0 \<or> int (length tokens) \<le> budget"
    using True by (cases "http_uri_tokens agg") auto
  then show ?thesis unfolding r Let_def by simp
next
  case False
  then obtain tokens where t: "http_uri_tokens agg = Some tokens" "0 < budget" "budget < int (length tokens)"
    by (cases "http_uri_tokens agg") auto
  from sampling_applied [OF t, of draws always_keep] obtain out where
    r: "apply_http_binomial_sampling draws agg budget always_keep = (True, agg\<lparr>http_uri_tokens := Some out\<rparr>)"
    by blast
  have "tokens \<noteq> []" using t by auto
  then show ?thesis unfolding r Let_def using t by simp
qed

theorem sampling_frame_witness:
  "\<not> fst (apply_http_binomial_sampling (const_draws 0) (agg_with_tokens [''a'', ''b'']) 2 [])
   \<and> snd (apply_http_binomial_sampling (const_draws 0) (agg_with_tokens [''a'', ''b'']) 2 [])
       = agg_with_tokens [''a'', ''b'']"
  using sampling_frame [of "const_draws 0" "agg_with_tokens [''a'', ''b'']" 2 "[]"]
  by (simp add: Let_def agg_with_tokens_def)

text \<open>
  Claim C1, as the code has it: for a token list stored in the aggregate, a budget of at
  least 1 that is also at least the number of tokens of the list that are in the
  always-keep lexicon, and any sequence of random draws, the token list after
  \<open>apply_http_binomial_sampling\<close> has at most \<open>budget\<close> tokens, and every always-keep
  token of the input list occurs in it.
\<close>

theorem sampling_budget_guarantee:
  assumes tok: "http_uri_tokens agg = Some tokens"
    and pos: "1 \<le> budget"
    and ak: "int (always_keep_count always_keep tokens) \<le> budget"
  shows "\<exists>out. http_uri_tokens (snd (apply_http_binomial_sampling draws agg budget always_keep)) = Some out
           \<and> int (length out) \<le> budget
           \<and> (\<forall>t \<in> set tokens. t \<in> set always_keep \<longrightarrow> t \<in> set out)"
proof (cases "int (length tokens) \<le> budget")
  case True
  have "apply_http_binomial_sampling draws agg budget always_keep = (False, agg)"
    by (rule sampling_skipped) (use tok True in simp)
  then show ?thesis using tok True by simp
next
  case False
  let ?ak = "filter (\<lambda>t. t \<in> set always_keep) tokens"
  have "0 < budget" "budget < int (length tokens)" using False pos by simp_all
  from sampling_applied [OF tok this, of draws always_keep] obtain sampled where
    r: "apply_http_binomial_sampling draws agg budget always_keep =
           (True, agg\<lparr>http_uri_tokens := Some (take (nat budget) (?ak @ sampled))\<rparr>)"
    by blast
  have len: "length ?ak \<le> nat budget"
    using ak by (simp add: always_keep_count_def)
  then have sub: "set ?ak \<subseteq> set (take (nat budget) (?ak @ sampled))"
    by (simp add: take_append)
  have le: "int (length (take (nat budget) (?ak @ sampled))) \<le> budget"
    using pos by simp
  have mem: "\<forall>t \<in> set tokens. t \<in> set always_keep \<longrightarrow> t \<in> set (take (nat budget) (?ak @ sampled))"
    using sub by auto
  show ?thesis
    unfolding r using le mem by simp
qed

theorem sampling_budget_guarantee_witness:
  "http_uri_tokens (agg_with_tokens [''x'', ''or'', ''y'', ''z'']) = Some [''x'', ''or'', ''y'', ''z'']
   \<and> (1::int) \<le> 2
   \<and> int (always_keep_count [''or''] [''x'', ''or'', ''y'', ''z'']) \<le> 2
   \<and> (\<exists>out. http_uri_tokens (snd (apply_http_binomial_sampling (const_draws 0)
                (agg_with_tokens [''x'', ''or'', ''y'', ''z'']) 2 [''or''])) = Some out
          \<and> int (length out) \<le> 2 \<and> ''or'' \<in> set out)"
proof -
  have h1: "http_uri_tokens (agg_with_tokens [''x'', ''or'', ''y'', ''z'']) = Some [''x'', ''or'', ''y'', ''z'']"
    by (simp add: agg_with_tokens_def)
  have h2: "(1::int) \<le> 2" by simp
  have h3: "int (always_keep_count [''or''] [''x'', ''or'', ''y'', ''z'']) \<le> 2"
    by (simp add: always_keep_count_def)
  from sampling_budget_guarantee [OF h1 h2 h3, of "const_draws 0"] h1 h2 h3
  show ?thesis by auto
qed

text \<open>
  Claim C1 as stated fails for the budget 0, which is at least the number (zero) of
  always-keep tokens of the list \<open>["a"]\<close>: the guard \<open>budget <= 0\<close> leaves the list as it
  is, one token long.
\<close>

theorem sampling_budget_zero_counterexample:
  "http_uri_tokens (agg_with_tokens [''a'']) = Some [''a'']
   \<and> int (always_keep_count [] [''a'']) \<le> 0
   \<and> http_uri_tokens (snd (apply_http_binomial_sampling (const_draws 0) (agg_with_tokens [''a'']) 0 []))
       = Some [''a'']
   \<and> \<not> int (length [''a'']) \<le> 0"
  by (simp add: apply_http_binomial_sampling_def agg_with_tokens_def always_keep_count_def)

text \<open>
  The always-keep tokens are counted with their repetitions (\<open>len(ak_tokens)\<close>): a budget
  that only covers the distinct always-keep tokens can lose one of them to the hard cap.
\<close>

lemma sampling_repeated_always_keep_example:
  "http_uri_tokens (snd (apply_http_binomial_sampling (const_draws 0)
      (agg_with_tokens [''or'', ''or'', ''and'']) 2 [''or'', ''and''])) = Some [''or'', ''or'']
   \<and> always_keep_count [''or'', ''and''] [''or'', ''or'', ''and''] = 3"
  by (simp add: apply_http_binomial_sampling_def agg_with_tokens_def always_keep_count_def)

section \<open>Payload preview buffers\<close>

lemma update_aggregate_payload_up:
  "payload_up (update_aggregate agg pkt d) =
     (case payload_preview pkt of
        None \<Rightarrow> payload_up agg
      | Some pv \<Rightarrow> if pv \<noteq> [] \<and> d = Up then push_preview (payload_up agg) pv else payload_up agg)"
  by (simp add: update_aggregate_def stash_preview_def update_flags_def update_counters_def
        update_time_bounds_def Let_def split: option.splits)

lemma update_aggregate_payload_dn:
  "payload_dn (update_aggregate agg pkt d) =
     (case payload_preview pkt of
        None \<Rightarrow> payload_dn agg
      | Some pv \<Rightarrow> if pv \<noteq> [] \<and> d = Dn then push_preview (payload_dn agg) pv else payload_dn agg)"
  by (cases d) (simp_all add: update_aggregate_def stash_preview_def update_flags_def update_counters_def
        update_time_bounds_def Let_def split: option.splits)

lemma previews_of_update_aggregate:
  "previews_of d (update_aggregate agg pkt dir) =
     previews_of d agg @
       take (MAX_PREVIEWS_PER_DIR - length (previews_of d agg)) (previews_seen d [(pkt, dir)])"
  by (cases d; cases dir)
     (auto simp: previews_of_def update_aggregate_payload_up update_aggregate_payload_dn
        push_preview_def Let_def split: option.splits)

lemma previews_of_update_all:
  "previews_of d (update_all agg calls) =
     previews_of d agg @
       take (MAX_PREVIEWS_PER_DIR - length (previews_of d agg)) (previews_seen d calls)"
proof (induction calls arbitrary: agg)
  case Nil
  then show ?case by simp
next
  case (Cons c calls)
  obtain pkt dir where c: "c = (pkt, dir)" by (cases c)
  have one: "previews_seen d [(pkt, dir)] = [] \<or> (\<exists>pv. previews_seen d [(pkt, dir)] = [pv])"
    by (auto split: option.splits)
  have step: "previews_seen d ((pkt, dir) # calls) = previews_seen d [(pkt, dir)] @ previews_seen d calls"
    by (auto split: option.splits)
  show ?case
    unfolding c update_all.simps Cons.IH previews_of_update_aggregate step
    using one by (auto simp: min_def)
qed

lemma previews_of_new_aggregate: "previews_of d (new_aggregate k t) = []"
  by (simp add: previews_of_def new_aggregate_def)

text \<open>
  Claim C9. After any sequence of \<open>update_aggregate\<close> calls on a fresh aggregate, each
  per-direction preview buffer holds at most 12 previews and is exactly the first 12
  previews seen in that direction; a buffer that has reached the cap is left as it is by
  every later call; and from any aggregate whose buffer is within the cap, the buffer
  after the calls is the old buffer followed by the new previews, cut at 12.
\<close>

theorem preview_buffers_capped:
  "length (previews_of d (update_all (new_aggregate k t) calls)) \<le> MAX_PREVIEWS_PER_DIR
   \<and> previews_of d (update_all (new_aggregate k t) calls)
       = take MAX_PREVIEWS_PER_DIR (previews_seen d calls)
   \<and> (length (previews_of d agg) \<ge> MAX_PREVIEWS_PER_DIR
        \<longrightarrow> previews_of d (update_aggregate agg pkt dir) = previews_of d agg)
   \<and> (length (previews_of d agg) \<le> MAX_PREVIEWS_PER_DIR
        \<longrightarrow> previews_of d (update_all agg calls)
             = take MAX_PREVIEWS_PER_DIR (previews_of d agg @ previews_seen d calls))
   \<and> MAX_PREVIEWS_PER_DIR = 12"
  by (simp add: previews_of_update_all previews_of_update_aggregate previews_of_new_aggregate
        MAX_PREVIEWS_PER_DIR_def)

theorem preview_buffers_capped_witness:
  "MAX_PREVIEWS_PER_DIR \<le> length (previews_of Up (update_all (new_aggregate example_key 0) twelve_up_calls))
   \<and> previews_of Up (update_aggregate (update_all (new_aggregate example_key 0) twelve_up_calls)
                       (preview_pkt 13) Up)
       = previews_of Up (update_all (new_aggregate example_key 0) twelve_up_calls)
   \<and> previews_of Up (update_all (new_aggregate example_key 0) twelve_up_calls)
       = [[1], [2], [3], [4], [5], [6], [7], [8], [9], [10], [11], [12]]"
proof -
  let ?A = "update_all (new_aggregate example_key 0) twelve_up_calls"
  have seen: "previews_seen Up twelve_up_calls = [[1], [2], [3], [4], [5], [6], [7], [8], [9], [10], [11], [12]]"
    by (simp add: twelve_up_calls_def preview_pkt_def)
  have full: "MAX_PREVIEWS_PER_DIR \<le> length (previews_of Up ?A)"
    by (simp add: previews_of_update_all previews_of_new_aggregate seen MAX_PREVIEWS_PER_DIR_def)
  from preview_buffers_capped [where d = Up and k = example_key and t = 0 and calls = twelve_up_calls
      and agg = ?A and pkt = "preview_pkt 13" and dir = Up]
  show ?thesis using full by (simp add: seen MAX_PREVIEWS_PER_DIR_def)
qed


section \<open>Aggregate lifecycle\<close>

lemma update_aggregate_first_ts:
  "first_ts (update_aggregate agg pkt d) = min (first_ts agg) (ts pkt)"
  by (simp add: update_aggregate_def stash_preview_def update_flags_def update_counters_def
        update_time_bounds_def Let_def split: option.splits)

lemma update_aggregate_last_ts:
  "last_ts (update_aggregate agg pkt d) = max (last_ts agg) (ts pkt)"
  by (simp add: update_aggregate_def stash_preview_def update_flags_def update_counters_def
        update_time_bounds_def Let_def split: option.splits)

lemma update_aggregate_key:
  "key (update_aggregate agg pkt d) = key agg"
  by (simp add: update_aggregate_def stash_preview_def update_flags_def update_counters_def
        update_time_bounds_def Let_def split: option.splits)

lemma update_aggregate_pkts:
  "pkts_up (update_aggregate agg pkt d) + pkts_dn (update_aggregate agg pkt d)
     = pkts_up agg + pkts_dn agg + 1"
  by (simp add: update_aggregate_def stash_preview_def update_flags_def update_counters_def
        update_time_bounds_def Let_def split: option.splits)


lemma get_or_create_roll:
  assumes "DAList.lookup (open_map shard) k = Some agg" "fsub t (last_ts agg) > idle shard"
  shows "get_or_create fsub shard k t =
           (new_aggregate k t,
            shard\<lparr>finalized := finalized shard @ [agg],
                  open_map := DAList.update k (new_aggregate k t) (open_map shard)\<rparr>)"
  using assms by (simp add: get_or_create_def Let_def)

lemma get_or_create_keep:
  assumes "DAList.lookup (open_map shard) k = Some agg" "\<not> fsub t (last_ts agg) > idle shard"
  shows "get_or_create fsub shard k t = (agg, shard)"
  using assms by (simp add: get_or_create_def Let_def)

lemma get_or_create_fresh:
  assumes "DAList.lookup (open_map shard) k = None"
  shows "get_or_create fsub shard k t =
           (new_aggregate k t, shard\<lparr>open_map := DAList.update k (new_aggregate k t) (open_map shard)\<rparr>)"
  using assms by (simp add: get_or_create_def Let_def)






lemma route_packet_fresh:
  assumes "DAList.lookup (open_map shard) k = None"
  shows "route_packet fsub shard k pkt =
           shard\<lparr>open_map := DAList.update k
             (update_aggregate (new_aggregate k (ts pkt)) pkt (group_direction pkt k)) (open_map shard)\<rparr>"
  unfolding route_packet_def get_or_create_fresh [OF assms] by simp

lemma route_packet_roll:
  assumes "DAList.lookup (open_map shard) k = Some agg" "fsub (ts pkt) (last_ts agg) > idle shard"
  shows "route_packet fsub shard k pkt =
           shard\<lparr>finalized := finalized shard @ [agg],
                 open_map := DAList.update k
                   (update_aggregate (new_aggregate k (ts pkt)) pkt (group_direction pkt k))
                   (open_map shard)\<rparr>"
  unfolding route_packet_def get_or_create_roll [where fsub = fsub, OF assms] by simp

lemma route_packet_keep:
  assumes "DAList.lookup (open_map shard) k = Some agg" "\<not> fsub (ts pkt) (last_ts agg) > idle shard"
  shows "route_packet fsub shard k pkt =
           shard\<lparr>open_map := DAList.update k
             (update_aggregate agg pkt (group_direction pkt k)) (open_map shard)\<rparr>"
  unfolding route_packet_def get_or_create_keep [where fsub = fsub, OF assms] by simp

lemma route_packets_append:
  "route_packets fsub shard k (xs @ ys) = route_packets fsub (route_packets fsub shard k xs) k ys"
  by (induction xs arbitrary: shard) simp_all

text \<open>Packets that follow one another without an idle gap stay in the open aggregate.\<close>

lemma route_packets_quiet:
  assumes "DAList.lookup (open_map shard) k = Some agg"
    and "no_idle_gap fsub (idle shard) (last_ts agg # map ts pkts)"
    and "sorted (last_ts agg # map ts pkts)"
    and "first_ts agg \<le> last_ts agg"
  shows "\<exists>agg'. route_packets fsub shard k pkts = shard\<lparr>open_map := DAList.update k agg' (open_map shard)\<rparr>
           \<and> first_ts agg' = first_ts agg
           \<and> last_ts agg' = last (last_ts agg # map ts pkts)
           \<and> pkts_up agg' + pkts_dn agg' = pkts_up agg + pkts_dn agg + int (length pkts)
           \<and> key agg' = key agg"
  using assms
proof (induction pkts arbitrary: shard agg)
  case Nil
  have "shard = shard\<lparr>open_map := DAList.update k agg (open_map shard)\<rparr>"
    using Nil.prems(1) by (simp add: alist_eq_iff update.rep_eq lookup.rep_eq update_triv)
  then show ?case by auto
next
  case (Cons p pkts)
  let ?a1 = "update_aggregate agg p (group_direction p k)"
  let ?s1 = "shard\<lparr>open_map := DAList.update k ?a1 (open_map shard)\<rparr>"
  have le: "last_ts agg \<le> ts p" and gap: "\<not> fsub (ts p) (last_ts agg) > idle shard"
    using Cons.prems(2,3) by auto
  have step: "route_packet fsub shard k p = ?s1"
    by (rule route_packet_keep [where fsub = fsub, OF Cons.prems(1) gap])
  have l1: "last_ts ?a1 = ts p" and f1: "first_ts ?a1 = first_ts agg"
    using le Cons.prems(4) by (simp_all add: update_aggregate_last_ts update_aggregate_first_ts)
  have lk: "DAList.lookup (open_map ?s1) k = Some ?a1" by simp
  have g1: "no_idle_gap fsub (idle ?s1) (last_ts ?a1 # map ts pkts)"
    using Cons.prems(2) by (simp add: l1)
  have s1: "sorted (last_ts ?a1 # map ts pkts)"
    using Cons.prems(3) by (simp add: l1)
  have o1: "first_ts ?a1 \<le> last_ts ?a1"
    using Cons.prems(4) le by (simp add: l1 f1)
  from Cons.IH [OF lk g1 s1 o1] obtain agg' where
    r: "route_packets fsub ?s1 k pkts = ?s1\<lparr>open_map := DAList.update k agg' (open_map ?s1)\<rparr>"
    and f: "first_ts agg' = first_ts ?a1"
    and l: "last_ts agg' = last (last_ts ?a1 # map ts pkts)"
    and c: "pkts_up agg' + pkts_dn agg' = pkts_up ?a1 + pkts_dn ?a1 + int (length pkts)"
    and ky: "key agg' = key ?a1"
    by blast
  have "route_packets fsub shard k (p # pkts) = shard\<lparr>open_map := DAList.update k agg' (open_map shard)\<rparr>"
    by (simp add: step r)
  moreover have "first_ts agg' = first_ts agg" using f f1 by simp
  moreover have "last_ts agg' = last (last_ts agg # map ts (p # pkts))" using l l1 by simp
  moreover have "pkts_up agg' + pkts_dn agg' = pkts_up agg + pkts_dn agg + int (length (p # pkts))"
    using c update_aggregate_pkts [of agg p "group_direction p k"] by simp
  moreover have "key agg' = key agg" using ky by (simp add: update_aggregate_key)
  ultimately show ?case by blast
qed


lemma last_map_ts: "pkts \<noteq> [] \<Longrightarrow> last (t # map ts pkts) = ts (last pkts)"
  by (simp add: last_map)

text \<open>A first packet and its quiet successors, routed into a shard with no open aggregate for the key.\<close>

lemma route_packets_burst:
  assumes "DAList.lookup (open_map shard) k = None"
    and "no_idle_gap fsub (idle shard) (map ts (x # xs))"
    and "sorted (map ts (x # xs))"
  shows "\<exists>agg. route_packets fsub shard k (x # xs) = shard\<lparr>open_map := DAList.update k agg (open_map shard)\<rparr>
           \<and> first_ts agg = ts x
           \<and> last_ts agg = ts (last (x # xs))
           \<and> pkts_up agg + pkts_dn agg = int (length (x # xs))
           \<and> key agg = k"
proof -
  let ?a0 = "update_aggregate (new_aggregate k (ts x)) x (group_direction x k)"
  let ?s1 = "shard\<lparr>open_map := DAList.update k ?a0 (open_map shard)\<rparr>"
  have step: "route_packet fsub shard k x = ?s1" by (rule route_packet_fresh [OF assms(1)])
  have f0: "first_ts ?a0 = ts x" and l0: "last_ts ?a0 = ts x"
    by (simp_all add: update_aggregate_first_ts update_aggregate_last_ts new_aggregate_def)
  have c0: "pkts_up ?a0 + pkts_dn ?a0 = 1"
    using update_aggregate_pkts [of "new_aggregate k (ts x)" x "group_direction x k"]
    by (simp add: new_aggregate_def)
  have k0: "key ?a0 = k" by (simp add: update_aggregate_key new_aggregate_def)
  have lk: "DAList.lookup (open_map ?s1) k = Some ?a0" by simp
  have g: "no_idle_gap fsub (idle ?s1) (last_ts ?a0 # map ts xs)" using assms(2) by (simp add: l0)
  have s: "sorted (last_ts ?a0 # map ts xs)" using assms(3) by (simp add: l0)
  have o: "first_ts ?a0 \<le> last_ts ?a0" by (simp add: f0 l0)
  from route_packets_quiet [where fsub = fsub, OF lk g s o] obtain agg where
    r: "route_packets fsub ?s1 k xs = ?s1\<lparr>open_map := DAList.update k agg (open_map ?s1)\<rparr>"
    and f: "first_ts agg = first_ts ?a0"
    and l: "last_ts agg = last (last_ts ?a0 # map ts xs)"
    and c: "pkts_up agg + pkts_dn agg = pkts_up ?a0 + pkts_dn ?a0 + int (length xs)"
    and ky: "key agg = key ?a0"
    by blast
  have "route_packets fsub shard k (x # xs) = shard\<lparr>open_map := DAList.update k agg (open_map shard)\<rparr>"
    by (simp add: step r)
  moreover have "first_ts agg = ts x" using f f0 by simp
  moreover have "last_ts agg = ts (last (x # xs))" using l l0 by (cases xs) (simp_all add: last_map)
  moreover have "pkts_up agg + pkts_dn agg = int (length (x # xs))" using c c0 by simp
  moreover have "key agg = k" using ky k0 by simp
  ultimately show ?thesis by blast
qed

text \<open>The same burst arriving after an idle gap: the open aggregate is finalized first.\<close>

lemma route_packets_roll_burst:
  assumes "DAList.lookup (open_map shard) k = Some old"
    and "fsub (ts y) (last_ts old) > idle shard"
    and "no_idle_gap fsub (idle shard) (map ts (y # ys))"
    and "sorted (map ts (y # ys))"
  shows "\<exists>agg. route_packets fsub shard k (y # ys) =
             shard\<lparr>finalized := finalized shard @ [old],
                   open_map := DAList.update k agg (open_map shard)\<rparr>
           \<and> first_ts agg = ts y
           \<and> last_ts agg = ts (last (y # ys))
           \<and> pkts_up agg + pkts_dn agg = int (length (y # ys))
           \<and> key agg = k"
proof -
  let ?a0 = "update_aggregate (new_aggregate k (ts y)) y (group_direction y k)"
  let ?s1 = "shard\<lparr>finalized := finalized shard @ [old],
                    open_map := DAList.update k ?a0 (open_map shard)\<rparr>"
  have step: "route_packet fsub shard k y = ?s1" by (rule route_packet_roll [where fsub = fsub, OF assms(1,2)])
  have f0: "first_ts ?a0 = ts y" and l0: "last_ts ?a0 = ts y"
    by (simp_all add: update_aggregate_first_ts update_aggregate_last_ts new_aggregate_def)
  have c0: "pkts_up ?a0 + pkts_dn ?a0 = 1"
    using update_aggregate_pkts [of "new_aggregate k (ts y)" y "group_direction y k"]
    by (simp add: new_aggregate_def)
  have k0: "key ?a0 = k" by (simp add: update_aggregate_key new_aggregate_def)
  have lk: "DAList.lookup (open_map ?s1) k = Some ?a0" by simp
  have g: "no_idle_gap fsub (idle ?s1) (last_ts ?a0 # map ts ys)" using assms(3) by (simp add: l0)
  have s: "sorted (last_ts ?a0 # map ts ys)" using assms(4) by (simp add: l0)
  have o: "first_ts ?a0 \<le> last_ts ?a0" by (simp add: f0 l0)
  from route_packets_quiet [where fsub = fsub, OF lk g s o] obtain agg where
    r: "route_packets fsub ?s1 k ys = ?s1\<lparr>open_map := DAList.update k agg (open_map ?s1)\<rparr>"
    and f: "first_ts agg = first_ts ?a0"
    and l: "last_ts agg = last (last_ts ?a0 # map ts ys)"
    and c: "pkts_up agg + pkts_dn agg = pkts_up ?a0 + pkts_dn ?a0 + int (length ys)"
    and ky: "key agg = key ?a0"
    by blast
  have "route_packets fsub shard k (y # ys) =
          shard\<lparr>finalized := finalized shard @ [old], open_map := DAList.update k agg (open_map shard)\<rparr>"
    by (simp add: step r)
  moreover have "first_ts agg = ts y" using f f0 by simp
  moreover have "last_ts agg = ts (last (y # ys))" using l l0 by (cases ys) (simp_all add: last_map)
  moreover have "pkts_up agg + pkts_dn agg = int (length (y # ys))" using c c0 by simp
  moreover have "key agg = k" using ky k0 by simp
  ultimately show ?thesis by blast
qed

lemma no_idle_gap_append:
  "no_idle_gap fsub i (xs @ ys) \<Longrightarrow> no_idle_gap fsub i xs"
  by (induction fsub i xs rule: no_idle_gap.induct) auto





text \<open>
  Claim C2, as the code has it. A packet whose timestamp, less the open aggregate's
  \<open>last_ts\<close> as the code subtracts the two doubles, exceeds the idle threshold makes
  \<open>get_or_create\<close> finalize that aggregate and open a fresh one at the packet's timestamp
  for the same key. Hence, for a non-negative idle threshold, a packet sequence on one key
  whose timestamps never decrease and which has exactly one such gap (between the last
  packet of \<open>xs\<close> and \<open>y\<close>; every other difference of neighbours, subtracted the same
  way, is within the threshold) yields exactly two aggregates at \<open>finalize_all\<close>; their
  directional packet counts add up to the number of packets, and the first span ends
  before the second begins.
\<close>

theorem idle_roll_two_aggregates:
  assumes ne: "xs \<noteq> []"
    and idle0: "0 \<le> i"
    and sign: "sign_exact fsub"
    and srt: "sorted (map ts (xs @ y # ys))"
    and quiet1: "no_idle_gap fsub (real_of_int i) (map ts xs)"
    and gap: "fsub (ts y) (ts (last xs)) > real_of_int i"
    and quiet2: "no_idle_gap fsub (real_of_int i) (map ts (y # ys))"
  shows "(DAList.lookup (open_map shard) k = Some agg \<and> fsub t (last_ts agg) > idle shard
           \<longrightarrow> get_or_create fsub shard k t =
                 (new_aggregate k t,
                  shard\<lparr>finalized := finalized shard @ [agg],
                        open_map := DAList.update k (new_aggregate k t) (open_map shard)\<rparr>))
       \<and> (\<exists>a1 a2.
             fst (finalize_all (route_packets fsub (AggregatorShard_init i) k (xs @ y # ys)) hour_end) = [a1, a2]
           \<and> pkts_up a1 + pkts_dn a1 + pkts_up a2 + pkts_dn a2 = int (length (xs @ y # ys))
           \<and> key a1 = k \<and> key a2 = k
           \<and> first_ts a1 = ts (hd xs) \<and> last_ts a1 = ts (last xs)
           \<and> first_ts a2 = ts y \<and> last_ts a2 = ts (last (y # ys))
           \<and> first_ts a1 \<le> last_ts a1 \<and> last_ts a1 < first_ts a2 \<and> first_ts a2 \<le> last_ts a2)"
proof -
  let ?s0 = "AggregatorShard_init i"
  obtain x xs' where xs: "xs = x # xs'" using ne by (cases xs) auto
  have s_xs: "sorted (map ts (x # xs'))" and s_ys: "sorted (map ts (y # ys))"
    using srt unfolding xs by (simp_all add: sorted_append)
  have idle_s0: "idle ?s0 = real_of_int i" by (simp add: AggregatorShard_init_def)
  have lk0: "DAList.lookup (open_map ?s0) k = None" by (simp add: AggregatorShard_init_def)
  have q1: "no_idle_gap fsub (idle ?s0) (map ts (x # xs'))" using quiet1 by (simp add: xs idle_s0)
  from route_packets_burst [where fsub = fsub, OF lk0 q1 s_xs] obtain a1 where
    r1: "route_packets fsub ?s0 k (x # xs') = ?s0\<lparr>open_map := DAList.update k a1 (open_map ?s0)\<rparr>"
    and f1: "first_ts a1 = ts x" and l1: "last_ts a1 = ts (last (x # xs'))"
    and c1: "pkts_up a1 + pkts_dn a1 = int (length (x # xs'))" and k1: "key a1 = k"
    by blast
  let ?s1 = "?s0\<lparr>open_map := DAList.update k a1 (open_map ?s0)\<rparr>"
  have lk1: "DAList.lookup (open_map ?s1) k = Some a1" by simp
  have g1: "fsub (ts y) (last_ts a1) > idle ?s1" using gap by (simp add: l1 xs idle_s0)
  have q2: "no_idle_gap fsub (idle ?s1) (map ts (y # ys))" using quiet2 by (simp add: idle_s0)
  from route_packets_roll_burst [where fsub = fsub, OF lk1 g1 q2 s_ys] obtain a2 where
    r2: "route_packets fsub ?s1 k (y # ys) =
           ?s1\<lparr>finalized := finalized ?s1 @ [a1], open_map := DAList.update k a2 (open_map ?s1)\<rparr>"
    and f2: "first_ts a2 = ts y" and l2: "last_ts a2 = ts (last (y # ys))"
    and c2: "pkts_up a2 + pkts_dn a2 = int (length (y # ys))" and k2: "key a2 = k"
    by blast
  have run: "route_packets fsub ?s0 k (xs @ y # ys) =
           ?s1\<lparr>finalized := finalized ?s1 @ [a1], open_map := DAList.update k a2 (open_map ?s1)\<rparr>"
    unfolding route_packets_append xs r1 r2 ..
  have out: "fst (finalize_all (route_packets fsub ?s0 k (xs @ y # ys)) hour_end) = [a1, a2]"
    unfolding run by (simp add: finalize_all_def AggregatorShard_init_def update.rep_eq empty.rep_eq)
  have cnt: "pkts_up a1 + pkts_dn a1 + pkts_up a2 + pkts_dn a2 = int (length (xs @ y # ys))"
    using c1 c2 by (simp add: xs)
  have o1: "first_ts a1 \<le> last_ts a1"
    using s_xs by (cases xs') (auto simp: f1 l1)
  have o2: "first_ts a2 \<le> last_ts a2"
    using s_ys by (cases ys) (auto simp: f2 l2)
  have "0 < fsub (ts y) (ts (last xs))" using gap idle0 by simp
  then have "ts (last xs) < ts y" using sign by (simp add: sign_exact_def)
  then have sep: "last_ts a1 < first_ts a2"
    by (simp add: l1 f2 xs)
  have roll: "DAList.lookup (open_map shard) k = Some agg \<and> fsub t (last_ts agg) > idle shard
           \<longrightarrow> get_or_create fsub shard k t =
                 (new_aggregate k t,
                  shard\<lparr>finalized := finalized shard @ [agg],
                        open_map := DAList.update k (new_aggregate k t) (open_map shard)\<rparr>)"
    using get_or_create_roll [where fsub = fsub] by blast
  have "fst (finalize_all (route_packets fsub ?s0 k (xs @ y # ys)) hour_end) = [a1, a2]
           \<and> pkts_up a1 + pkts_dn a1 + pkts_up a2 + pkts_dn a2 = int (length (xs @ y # ys))
           \<and> key a1 = k \<and> key a2 = k
           \<and> first_ts a1 = ts (hd xs) \<and> last_ts a1 = ts (last xs)
           \<and> first_ts a2 = ts y \<and> last_ts a2 = ts (last (y # ys))
           \<and> first_ts a1 \<le> last_ts a1 \<and> last_ts a1 < first_ts a2 \<and> first_ts a2 \<le> last_ts a2"
    using out cnt k1 k2 f1 l1 f2 l2 o1 o2 sep by (simp add: xs)
  then show ?thesis using roll by blast
qed

theorem idle_roll_two_aggregates_witness:
  "[pkt_at 0, reply_at 1] \<noteq> []
   \<and> (0::int) \<le> 120
   \<and> sign_exact exact_sub
   \<and> sorted (map ts ([pkt_at 0, reply_at 1] @ pkt_at 200 # [reply_at 201]))
   \<and> no_idle_gap exact_sub (real_of_int 120) (map ts [pkt_at 0, reply_at 1])
   \<and> exact_sub (ts (pkt_at 200)) (ts (last [pkt_at 0, reply_at 1])) > real_of_int 120
   \<and> no_idle_gap exact_sub (real_of_int 120) (map ts (pkt_at 200 # [reply_at 201]))
   \<and> DAList.lookup (open_map (shard_opened_at_5 120)) example_key = Some (new_aggregate example_key 5)
   \<and> exact_sub 200 (last_ts (new_aggregate example_key 5)) > idle (shard_opened_at_5 120)
   \<and> get_or_create exact_sub (shard_opened_at_5 120) example_key 200 =
        (new_aggregate example_key 200,
         (shard_opened_at_5 120)\<lparr>finalized := finalized (shard_opened_at_5 120) @ [new_aggregate example_key 5],
            open_map := DAList.update example_key (new_aggregate example_key 200)
                          (open_map (shard_opened_at_5 120))\<rparr>)
   \<and> (\<exists>a1 a2.
         fst (finalize_all (route_packets exact_sub (AggregatorShard_init 120) example_key
                [pkt_at 0, reply_at 1, pkt_at 200, reply_at 201]) 3600) = [a1, a2]
       \<and> pkts_up a1 + pkts_dn a1 + pkts_up a2 + pkts_dn a2 = 4
       \<and> first_ts a1 = 0 \<and> last_ts a1 = 1 \<and> first_ts a2 = 200 \<and> last_ts a2 = 201)"
proof -
  have sh: "shard_opened_at_5 120 =
      \<lparr>idle = 120, open_map = DAList.update example_key (new_aggregate example_key 5) DAList.empty,
       finalized = []\<rparr>"
    by (simp add: shard_opened_at_5_def get_or_create_def AggregatorShard_init_def Let_def)
  have h1: "[pkt_at 0, reply_at 1] \<noteq> []" by simp
  have h2: "(0::int) \<le> 120" by simp
  have hs: "sign_exact exact_sub" by (simp add: sign_exact_def exact_sub_def)
  have h3: "sorted (map ts ([pkt_at 0, reply_at 1] @ pkt_at 200 # [reply_at 201]))"
    by (simp add: pkt_at_def reply_at_def)
  have h4: "no_idle_gap exact_sub (real_of_int 120) (map ts [pkt_at 0, reply_at 1])"
    by (simp add: pkt_at_def reply_at_def exact_sub_def)
  have h5: "exact_sub (ts (pkt_at 200)) (ts (last [pkt_at 0, reply_at 1])) > real_of_int 120"
    by (simp add: pkt_at_def reply_at_def exact_sub_def)
  have h6: "no_idle_gap exact_sub (real_of_int 120) (map ts (pkt_at 200 # [reply_at 201]))"
    by (simp add: pkt_at_def reply_at_def exact_sub_def)
  have h7: "DAList.lookup (open_map (shard_opened_at_5 120)) example_key = Some (new_aggregate example_key 5)"
    by (simp add: sh)
  have h8: "exact_sub 200 (last_ts (new_aggregate example_key 5)) > idle (shard_opened_at_5 120)"
    by (simp add: sh new_aggregate_def exact_sub_def)
  have t: "ts (hd [pkt_at 0, reply_at 1]) = 0" "ts (last [pkt_at 0, reply_at 1]) = 1"
      "ts (pkt_at 200) = 200" "ts (last (pkt_at 200 # [reply_at 201])) = 201"
    by (simp_all add: pkt_at_def reply_at_def)
  from idle_roll_two_aggregates [OF h1 h2 hs h3 h4 h5 h6, where k = example_key and hour_end = 3600
      and shard = "shard_opened_at_5 120" and agg = "new_aggregate example_key 5" and t = 200]
  show ?thesis using h1 h2 hs h3 h4 h5 h6 h7 h8 unfolding t by auto
qed

text \<open>
  Claim C2 as stated fails for packets that arrive out of order. With an idle threshold of
  10 seconds, packets at seconds 50, 100 and 20 have exactly one gap that rolls
  (\<open>100 - 50 > 10\<close>; \<open>20 - 100\<close> does not exceed 10; doubles hold both differences
  exactly), and \<open>update_aggregate\<close> lowers the
  second aggregate's \<open>first_ts\<close> to 20: the spans are [50, 50] and [20, 100], and the first
  lies inside the second.
\<close>

theorem idle_roll_out_of_order_counterexample:
  "exact_sub (ts (pkt_at 100)) (ts (pkt_at 50)) > real_of_int 10
   \<and> \<not> exact_sub (ts (pkt_at 20)) (ts (pkt_at 100)) > real_of_int 10
   \<and> map first_ts (fst (finalize_all (route_packets exact_sub (AggregatorShard_init 10) example_key
        [pkt_at 50, pkt_at 100, pkt_at 20]) 3600)) = [50, 20]
   \<and> map last_ts (fst (finalize_all (route_packets exact_sub (AggregatorShard_init 10) example_key
        [pkt_at 50, pkt_at 100, pkt_at 20]) 3600)) = [50, 100]
   \<and> \<not> (50::real) < 20"
proof -
  let ?s0 = "AggregatorShard_init 10"
  let ?a = "update_aggregate (new_aggregate example_key 50) (pkt_at 50) (group_direction (pkt_at 50) example_key)"
  let ?b = "update_aggregate (new_aggregate example_key 100) (pkt_at 100) (group_direction (pkt_at 100) example_key)"
  let ?c = "update_aggregate ?b (pkt_at 20) (group_direction (pkt_at 20) example_key)"
  have t: "ts (pkt_at 50) = 50" "ts (pkt_at 100) = 100" "ts (pkt_at 20) = 20"
    by (simp_all add: pkt_at_def)
  have la: "last_ts ?a = 50" "first_ts ?a = 50"
    by (simp_all add: update_aggregate_last_ts update_aggregate_first_ts new_aggregate_def t)
  have lb: "last_ts ?b = 100" "first_ts ?b = 100"
    by (simp_all add: update_aggregate_last_ts update_aggregate_first_ts new_aggregate_def t)
  have lc: "last_ts ?c = 100" "first_ts ?c = 20"
    by (simp_all add: update_aggregate_last_ts update_aggregate_first_ts new_aggregate_def t)
  have s1: "route_packet exact_sub ?s0 example_key (pkt_at 50) =
              ?s0\<lparr>open_map := DAList.update example_key ?a (open_map ?s0)\<rparr>"
    using route_packet_fresh [where fsub = exact_sub and shard = ?s0 and k = example_key and pkt = "pkt_at 50"]
    by (simp add: AggregatorShard_init_def t)
  let ?s1 = "?s0\<lparr>open_map := DAList.update example_key ?a (open_map ?s0)\<rparr>"
  have s2: "route_packet exact_sub ?s1 example_key (pkt_at 100) =
              ?s1\<lparr>finalized := finalized ?s1 @ [?a], open_map := DAList.update example_key ?b (open_map ?s1)\<rparr>"
    using route_packet_roll [where fsub = exact_sub and shard = ?s1 and k = example_key and agg = ?a and pkt = "pkt_at 100"]
    by (simp add: AggregatorShard_init_def t la exact_sub_def)
  let ?s2 = "?s1\<lparr>finalized := finalized ?s1 @ [?a], open_map := DAList.update example_key ?b (open_map ?s1)\<rparr>"
  have s3: "route_packet exact_sub ?s2 example_key (pkt_at 20) =
              ?s2\<lparr>open_map := DAList.update example_key ?c (open_map ?s2)\<rparr>"
    using route_packet_keep [where fsub = exact_sub and shard = ?s2 and k = example_key and agg = ?b and pkt = "pkt_at 20"]
    by (simp add: AggregatorShard_init_def t lb exact_sub_def)
  have out: "fst (finalize_all (route_packets exact_sub ?s0 example_key [pkt_at 50, pkt_at 100, pkt_at 20]) 3600)
               = [?a, ?c]"
    unfolding route_packets.simps s1 s2 s3
    by (simp add: finalize_all_def AggregatorShard_init_def update.rep_eq empty.rep_eq)
  show ?thesis unfolding out by (simp add: la lc t exact_sub_def)
qed

text \<open>
  With a negative idle threshold even ordered packets give spans that touch: two packets
  at second 0 and \<open>idle_split_seconds = -1\<close> roll once and yield the spans [0, 0] and [0, 0].
\<close>

lemma idle_roll_negative_idle_example:
  "sorted (map ts [pkt_at 0, pkt_at 0])
   \<and> exact_sub (ts (pkt_at 0)) (ts (pkt_at 0)) > real_of_int (- 1)
   \<and> map first_ts (fst (finalize_all (route_packets exact_sub (AggregatorShard_init (- 1)) example_key
        [pkt_at 0, pkt_at 0]) 3600)) = [0, 0]
   \<and> map last_ts (fst (finalize_all (route_packets exact_sub (AggregatorShard_init (- 1)) example_key
        [pkt_at 0, pkt_at 0]) 3600)) = [0, 0]"
proof -
  let ?s0 = "AggregatorShard_init (- 1)"
  let ?a = "update_aggregate (new_aggregate example_key 0) (pkt_at 0) (group_direction (pkt_at 0) example_key)"
  have t: "ts (pkt_at 0) = 0" by (simp add: pkt_at_def)
  have la: "last_ts ?a = 0" "first_ts ?a = 0"
    by (simp_all add: update_aggregate_last_ts update_aggregate_first_ts new_aggregate_def t)
  have s1: "route_packet exact_sub ?s0 example_key (pkt_at 0) =
              ?s0\<lparr>open_map := DAList.update example_key ?a (open_map ?s0)\<rparr>"
    using route_packet_fresh [where fsub = exact_sub and shard = ?s0 and k = example_key and pkt = "pkt_at 0"]
    by (simp add: AggregatorShard_init_def t)
  let ?s1 = "?s0\<lparr>open_map := DAList.update example_key ?a (open_map ?s0)\<rparr>"
  have s2: "route_packet exact_sub ?s1 example_key (pkt_at 0) =
              ?s1\<lparr>finalized := finalized ?s1 @ [?a], open_map := DAList.update example_key ?a (open_map ?s1)\<rparr>"
    using route_packet_roll [where fsub = exact_sub and shard = ?s1 and k = example_key and agg = ?a and pkt = "pkt_at 0"]
    by (simp add: AggregatorShard_init_def t la exact_sub_def)
  have out: "fst (finalize_all (route_packets exact_sub ?s0 example_key [pkt_at 0, pkt_at 0]) 3600) = [?a, ?a]"
    unfolding route_packets.simps s1 s2
    by (simp add: finalize_all_def AggregatorShard_init_def update.rep_eq empty.rep_eq)
  show ?thesis unfolding out by (simp add: la t exact_sub_def)
qed

section \<open>Scan gate\<close>

lemma in_candidates_iff:
  "src \<in> set (candidates g) \<longleftrightarrow>
     (\<exists>s. DAList.lookup (by_src g) src = Some s \<and> threshold g < int (fcard (unique_dsts s)))"
proof -
  have d: "distinct (map fst (DAList.impl_of (by_src g)))" by simp
  have "src \<in> set (candidates g) \<longleftrightarrow>
          (\<exists>s. (src, s) \<in> set (DAList.impl_of (by_src g)) \<and> threshold g < int (fcard (unique_dsts s)))"
    by (auto simp: candidates_def intro: rev_image_eqI)
  also have "\<dots> \<longleftrightarrow> (\<exists>s. map_of (DAList.impl_of (by_src g)) src = Some s
                          \<and> threshold g < int (fcard (unique_dsts s)))"
    using map_of_eq_Some_iff [OF d] by simp
  finally show ?thesis by (simp add: lookup.rep_eq)
qed

lemma candidates_distinct: "distinct (candidates g)"
proof -
  have "distinct (map fst (filter (\<lambda>(src, s). int (fcard (unique_dsts s)) > threshold g)
                (DAList.impl_of (by_src g))))"
    by (rule distinct_map_filter) simp
  then show ?thesis by (simp add: candidates_def)
qed

lemma candidate_ratios_ok:
  assumes "\<forall>src \<in> set cands. DAList.lookup (by_src g) src \<noteq> None"
  shows "\<exists>rs. candidate_ratios g cands = Inr rs \<and> map fst rs = cands"
  using assms
proof (induction cands)
  case Nil
  then show ?case by simp
next
  case (Cons src cands)
  then obtain rs where rs: "candidate_ratios g cands = Inr rs" "map fst rs = cands" by auto
  from Cons.prems obtain s where s: "DAList.lookup (by_src g) src = Some s" by auto
  show ?case by (simp add: rs s)
qed

lemma threshold_observe_packet: "threshold (observe_packet g pkt k) = threshold g"
  by (simp add: observe_packet_def Let_def)

lemma threshold_observe_all: "threshold (observe_all g obs) = threshold g"
  by (induction g obs rule: observe_all.induct) (simp_all add: threshold_observe_packet)

lemma unique_dsts_observe_stats:
  "unique_dsts (observe_stats cap s pkt k) = finsert (key_dst_ip k) (unique_dsts s)"
  by (simp add: observe_stats_def Let_def split: option.splits)

lemma observed_observe_packet:
  "DAList.lookup (by_src (observe_packet g pkt k)) src = None \<longleftrightarrow>
     key_src_ip k \<noteq> src \<and> DAList.lookup (by_src g) src = None"
  by (simp add: observe_packet_def Let_def DAList.lookup_update)

lemma dsts_known_observe_packet:
  "dsts_known (observe_packet g pkt k) src =
     (if key_src_ip k = src then finsert (key_dst_ip k) (dsts_known g src) else dsts_known g src)"
  by (simp add: dsts_known_def observe_packet_def Let_def unique_dsts_observe_stats empty_stats_def
        DAList.lookup_update split: option.splits)

lemma observed_observe_all:
  "DAList.lookup (by_src (observe_all g obs)) src = None \<longleftrightarrow>
     src \<notin> set (map (\<lambda>(pkt, k). key_src_ip k) obs) \<and> DAList.lookup (by_src g) src = None"
  by (induction g obs rule: observe_all.induct) (auto simp: observed_observe_packet)

lemma dsts_known_observe_all:
  "dsts_known (observe_all g obs) src = dsts_contacted src obs |\<union>| dsts_known g src"
  by (induction g obs rule: observe_all.induct)
     (auto simp: dsts_known_observe_packet dsts_contacted_def)

lemma unique_dst_count_window:
  "unique_dst_count (observe_all (ScanGate_init th c n r cap) obs) src =
     (if src \<in> set (map (\<lambda>(pkt, k). key_src_ip k) obs)
      then Some (fcard (dsts_contacted src obs)) else None)"
proof -
  let ?g = "observe_all (ScanGate_init th c n r cap) obs"
  have e: "DAList.lookup (by_src (ScanGate_init th c n r cap)) src = None"
    by (simp add: ScanGate_init_def)
  have k: "dsts_known ?g src = dsts_contacted src obs"
    by (simp add: dsts_known_observe_all) (simp add: dsts_known_def e)
  show ?thesis
  proof (cases "DAList.lookup (by_src ?g) src")
    case None
    then show ?thesis using observed_observe_all [of "ScanGate_init th c n r cap" obs src]
      by (simp add: unique_dst_count_def)
  next
    case (Some s)
    then have "src \<in> set (map (\<lambda>(pkt, k). key_src_ip k) obs)"
      using observed_observe_all [of "ScanGate_init th c n r cap" obs src] e by auto
    then show ?thesis using k Some by (simp add: unique_dst_count_def dsts_known_def)
  qed
qed

lemma in_candidates_count:
  "src \<in> set (candidates g) \<longleftrightarrow> (\<exists>n. unique_dst_count g src = Some n \<and> threshold g < int n)"
  by (auto simp: in_candidates_iff unique_dst_count_def)

lemma five_sources:
  "(\<lambda>(pkt, k). key_src_ip k) ` set five_observations = {''a'', ''b''}"
  by (simp add: five_observations_def key_from_to_def insert_commute)

lemma five_counts:
  "fcard (dsts_contacted ''a'' five_observations) = 3"
  "fcard (dsts_contacted ''b'' five_observations) = 2"
  by (simp_all add: dsts_contacted_def five_observations_def key_from_to_def fcard_finsert_if)

lemma gate_1_candidates: "set (candidates (gate_with_threshold 1)) = {''a'', ''b''}"
proof -
  have th: "threshold (gate_with_threshold 1) = 1"
    by (simp add: gate_with_threshold_def threshold_observe_all ScanGate_init_def)
  have cnt: "unique_dst_count (gate_with_threshold 1) src =
               (if src = ''a'' then Some 3 else if src = ''b'' then Some 2 else None)" for src
    unfolding gate_with_threshold_def unique_dst_count_window
    by (simp add: five_sources five_counts)
  have "src \<in> set (candidates (gate_with_threshold 1)) \<longleftrightarrow> src \<in> {''a'', ''b''}" for src
    using in_candidates_count [of src "gate_with_threshold 1"]
    by (simp add: cnt th)
  then show ?thesis by blast
qed

text \<open>
  Claim C6, as the code has it. \<open>observe_packet\<close> updates the statistics of the source
  IP of the group key it is given: the unique-destination set gains the key's destination
  IP, the unique-port set gains the key's destination port, and for a TCP packet
  (\<open>tcp_flags\<close> present) the TCP count grows by one and the SYN-only count grows by one
  exactly when SYN is set and ACK is not. The statistics of every other source stay as
  they were.
\<close>

theorem observe_packet_updates_key_source_stats:
  "(\<exists>s'. DAList.lookup (by_src (observe_packet g pkt k)) (key_src_ip k) = Some s'
      \<and> unique_dsts s' = finsert (key_dst_ip k) (unique_dsts (stats_before g (key_src_ip k)))
      \<and> unique_ports s' = finsert (key_dst_port k) (unique_ports (stats_before g (key_src_ip k)))
      \<and> tcp_pkts s' = tcp_pkts (stats_before g (key_src_ip k))
            + (case tcp_flags pkt of None \<Rightarrow> 0 | Some flags \<Rightarrow> 1)
      \<and> syn_only_pkts s' = syn_only_pkts (stats_before g (key_src_ip k))
            + (case tcp_flags pkt of
                 None \<Rightarrow> 0
               | Some flags \<Rightarrow> if flags AND TCP_SYN \<noteq> 0 \<and> flags AND TCP_ACK = 0 then 1 else 0))
   \<and> (\<forall>other. other \<noteq> key_src_ip k \<longrightarrow>
           DAList.lookup (by_src (observe_packet g pkt k)) other = DAList.lookup (by_src g) other)"
  by (simp add: observe_packet_def observe_stats_def stats_before_def Let_def split: option.splits)

theorem observe_packet_updates_key_source_stats_witness:
  "(\<exists>s'. DAList.lookup (by_src (observe_packet empty_gate (pkt_at 0) example_key)) ''10.0.0.1'' = Some s'
      \<and> unique_dsts s' = {|''10.0.0.2''|}
      \<and> unique_ports s' = {|80|}
      \<and> tcp_pkts s' = 1
      \<and> syn_only_pkts s' = 1)
   \<and> ''10.0.0.9'' \<noteq> key_src_ip example_key
   \<and> DAList.lookup (by_src (observe_packet empty_gate (pkt_at 0) example_key)) ''10.0.0.9''
       = DAList.lookup (by_src empty_gate) ''10.0.0.9''"
proof -
  have k: "key_src_ip example_key = ''10.0.0.1''" "key_dst_ip example_key = ''10.0.0.2''"
      "key_dst_port example_key = 80"
    by (simp_all add: example_key_def)
  have p: "tcp_flags (pkt_at 0) = Some 2" by (simp add: pkt_at_def)
  have b: "stats_before empty_gate ''10.0.0.1'' = empty_stats"
    by (simp add: stats_before_def empty_gate_def ScanGate_init_def)
  have n: "''10.0.0.9'' \<noteq> key_src_ip example_key" by (simp add: k)
  from observe_packet_updates_key_source_stats [of empty_gate "pkt_at 0" example_key]
  show ?thesis
    using n unfolding k p b
    by (simp add: empty_stats_def TCP_SYN_def TCP_ACK_def)
qed

text \<open>
  When the key carries the packet's own source IP, destination IP and destination port,
  these are the statistics of the packet's source, as claim C6 words it.
\<close>

lemma observe_packet_with_own_key:
  assumes "key_src_ip k = src_ip pkt" "key_dst_ip k = dst_ip pkt" "key_dst_port k = dst_port pkt"
  shows "\<exists>s'. DAList.lookup (by_src (observe_packet g pkt k)) (src_ip pkt) = Some s'
     \<and> unique_dsts s' = finsert (dst_ip pkt) (unique_dsts (stats_before g (src_ip pkt)))
     \<and> unique_ports s' = finsert (dst_port pkt) (unique_ports (stats_before g (src_ip pkt)))
     \<and> tcp_pkts s' = tcp_pkts (stats_before g (src_ip pkt))
            + (case tcp_flags pkt of None \<Rightarrow> 0 | Some flags \<Rightarrow> 1)
     \<and> syn_only_pkts s' = syn_only_pkts (stats_before g (src_ip pkt))
            + (case tcp_flags pkt of
                 None \<Rightarrow> 0
               | Some flags \<Rightarrow> if flags AND TCP_SYN \<noteq> 0 \<and> flags AND TCP_ACK = 0 then 1 else 0)"
  using assms
  by (simp add: observe_packet_def observe_stats_def stats_before_def Let_def split: option.splits)

text \<open>
  Claim C6 as stated fails for a reply packet observed under the key of its flow, the
  pair for which \<open>group_direction\<close> answers "dn": the packet's source 10.0.0.2 gets no
  statistics at all, and the key's source 10.0.0.1 gains 10.0.0.2 as a destination.
\<close>

theorem observe_packet_reply_counterexample:
  "src_ip (reply_at 1) = ''10.0.0.2''
   \<and> dst_ip (reply_at 1) = ''10.0.0.1''
   \<and> group_direction (reply_at 1) example_key = Dn
   \<and> DAList.lookup (by_src (observe_packet empty_gate (reply_at 1) example_key)) ''10.0.0.2'' = None
   \<and> map_option unique_dsts
        (DAList.lookup (by_src (observe_packet empty_gate (reply_at 1) example_key)) ''10.0.0.1'')
       = Some {|''10.0.0.2''|}"
  by (simp add: reply_at_def example_key_def group_direction_def observe_packet_def observe_stats_def
        empty_gate_def ScanGate_init_def empty_stats_def Let_def DAList.lookup_update)

text \<open>
  Claim C5. With fewer than three candidates, \<open>split_repetitive_vs_outliers\<close> returns no
  summaries, no repetitive sources and all candidates as outliers, whatever the anomaly
  model would answer: the result does not depend on \<open>fit_predict\<close>.
\<close>

theorem split_fewer_than_three_candidates:
  "length (candidates g) < 3 \<longrightarrow>
     split_repetitive_vs_outliers fit_predict g =
       Inr (\<lparr>summaries = [], source_ips = {||}\<rparr>, fset_of_list (candidates g))"
proof
  assume few: "length (candidates g) < 3"
  have "\<forall>src \<in> set (candidates g). DAList.lookup (by_src g) src \<noteq> None"
    using in_candidates_iff by auto
  from candidate_ratios_ok [OF this] obtain rs where
    rs: "candidate_ratios g (candidates g) = Inr rs" and fst: "map fst rs = candidates g"
    by blast
  have len: "length rs < 3" using few fst by (metis length_map)
  show "split_repetitive_vs_outliers fit_predict g =
       Inr (\<lparr>summaries = [], source_ips = {||}\<rparr>, fset_of_list (candidates g))"
  proof (cases "candidates g = []")
    case True
    then show ?thesis by (simp add: split_repetitive_vs_outliers_def)
  next
    case False
    then show ?thesis
      unfolding split_repetitive_vs_outliers_def Let_def
      using rs len fst by (simp del: fset_of_list_map)
  qed
qed

theorem split_fewer_than_three_candidates_witness:
  "length (candidates (gate_with_threshold 1)) < 3
   \<and> split_repetitive_vs_outliers all_inliers (gate_with_threshold 1) =
        Inr (\<lparr>summaries = [], source_ips = {||}\<rparr>, {|''a'', ''b''|})"
proof -
  have "length (candidates (gate_with_threshold 1)) = card (set (candidates (gate_with_threshold 1)))"
    by (simp add: distinct_card candidates_distinct)
  then have len: "length (candidates (gate_with_threshold 1)) = 2"
    by (simp add: gate_1_candidates)
  have "fset (fset_of_list (candidates (gate_with_threshold 1))) = fset {|''a'', ''b''|}"
    by (simp add: gate_1_candidates fset_of_list.rep_eq)
  then have out: "fset_of_list (candidates (gate_with_threshold 1)) = {|''a'', ''b''|}"
    by (simp only: fset_inject)
  from split_fewer_than_three_candidates [of "gate_with_threshold 1" all_inliers]
  show ?thesis using len out by simp
qed

text \<open>
  Claim C4. In every gate state a source is among \<open>candidates\<close> exactly when the gate
  holds a unique-destination count for it that exceeds the threshold; a source with exactly
  \<open>threshold\<close> distinct destinations is not a candidate, one with \<open>threshold + 1\<close> is.
\<close>

theorem candidates_iff_exceeds_threshold:
  "(src \<in> set (candidates g) \<longleftrightarrow> (\<exists>n. unique_dst_count g src = Some n \<and> threshold g < int n))
   \<and> (unique_dst_count g src = Some n \<and> int n = threshold g \<longrightarrow> src \<notin> set (candidates g))
   \<and> (unique_dst_count g src = Some n \<and> int n = threshold g + 1 \<longrightarrow> src \<in> set (candidates g))"
  using in_candidates_count [of src g] by auto

theorem candidates_iff_exceeds_threshold_witness:
  "unique_dst_count (gate_with_threshold 2) ''b'' = Some 2
   \<and> int 2 = threshold (gate_with_threshold 2)
   \<and> ''b'' \<notin> set (candidates (gate_with_threshold 2))
   \<and> unique_dst_count (gate_with_threshold 2) ''a'' = Some 3
   \<and> int 3 = threshold (gate_with_threshold 2) + 1
   \<and> ''a'' \<in> set (candidates (gate_with_threshold 2))"
proof -
  have b: "unique_dst_count (gate_with_threshold 2) ''b'' = Some 2"
    and a: "unique_dst_count (gate_with_threshold 2) ''a'' = Some 3"
    unfolding gate_with_threshold_def unique_dst_count_window
    by (simp_all add: five_sources five_counts)
  have th: "threshold (gate_with_threshold 2) = 2"
    by (simp add: gate_with_threshold_def threshold_observe_all ScanGate_init_def)
  from candidates_iff_exceeds_threshold [of "''b''" "gate_with_threshold 2" 2]
    candidates_iff_exceeds_threshold [of "''a''" "gate_with_threshold 2" 3]
  show ?thesis using a b th by simp
qed

section \<open>Segment validation\<close>

lemma validate_segment_missing:
  "fs (path seg) = None \<Longrightarrow> validate_segment fs seg = Inr False"
  by (simp add: validate_segment_def)

lemma validate_segment_small:
  "fs (path seg) = Some st \<Longrightarrow> st_size st < 24 \<Longrightarrow> validate_segment fs seg = Inr False"
  by (simp add: validate_segment_def)

lemma validate_segment_regular:
  assumes "fs (path seg) = Some (Regular content)"
  shows "validate_segment fs seg =
     Inr (24 \<le> length content \<and>
          (if compressor seg = ''none''
           then take 4 content \<in> {MAGIC_PCAP_USEC_BE, MAGIC_PCAP_USEC_LE, MAGIC_PCAP_NSEC_BE,
                                   MAGIC_PCAP_NSEC_LE, MAGIC_PCAPNG}
           else if compressor seg = ''gzip'' then take 2 content = MAGIC_GZIP
           else if compressor seg = ''zstd'' then take 4 content = MAGIC_ZSTD
           else False))"
  using assms
  by (auto simp: validate_segment_def st_size_def read_head_def looks_like_uncompressed_pcap_def
        looks_like_gzip_def looks_like_zstd_def Let_def)

lemma validate_segment_unopenable:
  "fs (path seg) = Some (Unopenable n) \<Longrightarrow> 24 \<le> n \<Longrightarrow> validate_segment fs seg = Inl OSError"
  by (simp add: validate_segment_def st_size_def read_head_def)

lemma validate_segment_examples:
  "validate_segment example_fs (segment_at ''/cap/missing.pcap'' ''none'') = Inr False"
  "validate_segment example_fs (segment_at ''/cap/empty.pcap'' ''none'') = Inr False"
  "validate_segment example_fs (segment_at ''/cap/ten.pcap'' ''none'') = Inr False"
  "validate_segment example_fs (segment_at ''/cap/ok.pcap'' ''none'') = Inr True"
  "validate_segment example_fs (segment_at ''/cap/ok.pcap'' ''gzip'') = Inr False"
  by (simp_all add: validate_segment_def example_fs_def segment_at_def st_size_def read_head_def
        classic_pcap_header_def looks_like_uncompressed_pcap_def looks_like_gzip_def
        MAGIC_PCAP_USEC_BE_def MAGIC_GZIP_def Let_def)

text \<open>
  Claim C7 says \<open>validate_segment\<close> never raises. Only \<open>os.stat\<close> is guarded: for an
  entry that \<open>os.stat\<close> accepts with 24 bytes or more and that \<open>open\<close> refuses, the exception
  of \<open>_read_head\<close> leaves the function.
\<close>

theorem validate_segment_raises_when_unopenable:
  "validate_segment example_fs (segment_at ''/cap/locked.pcap'' ''none'') = Inl OSError"
  by (simp add: validate_segment_def example_fs_def segment_at_def st_size_def read_head_def)

section \<open>Logarithmic binning\<close>

lemma log_bin_nonpositive: "x \<le> 0 \<Longrightarrow> log_bin mlog x base = 0"
  by (simp add: log_bin_def)

lemma log_bin_positive:
  "0 < x \<Longrightarrow> log_bin mlog x base = \<lfloor>mlog x (if base \<le> 1 then 2 else base)\<rfloor>"
  by (simp add: log_bin_def Let_def)

lemma floor_log_10_1000: "\<lfloor>log 10 (real_of_int 1000)\<rfloor> = (3::int)"
proof -
  have "log 10 (real_of_int 1000) = log 10 (10 ^ 3)" by simp
  also have "\<dots> = 3" by (simp only: log_pow_cancel)
  finally show ?thesis by simp
qed

lemma floor_below_3: "\<lfloor>3 - 1 / 2 ^ 51 :: real\<rfloor> = 2"
  by (simp add: floor_eq_iff)

text \<open>
  With a logarithm that does not round, \<open>_log_bin\<close> is \<open>floor(log_base(x))\<close> for
  \<open>x > 0\<close> and base \<open>> 1\<close>, and it is monotone on the non-negative integers: what
  claim C3 says and what the comment \<open>floor(log_base(x))\<close> in the source intends.
\<close>

lemma log_bin_exact_log:
  "1 < base \<Longrightarrow> log_bin exact_log x base = (if x \<le> 0 then 0 else \<lfloor>log base (real_of_int x)\<rfloor>)"
  by (simp add: log_bin_def exact_log_def Let_def)

lemma log_bin_exact_log_mono:
  assumes b: "1 < base" and x: "0 \<le> x1" "x1 < x2"
  shows "log_bin exact_log x1 base \<le> log_bin exact_log x2 base"
proof (cases "x1 = 0")
  case True
  have "1 \<le> real_of_int x2" using x True by simp
  then have "0 \<le> log base (real_of_int x2)" using b by simp
  then have "0 \<le> \<lfloor>log base (real_of_int x2)\<rfloor>" by simp
  then show ?thesis using True x b by (simp add: log_bin_exact_log)
next
  case False
  then have p: "0 < real_of_int x1" "real_of_int x1 \<le> real_of_int x2" using x by simp_all
  then have "log base (real_of_int x1) \<le> log base (real_of_int x2)"
    using b by simp
  then have "\<lfloor>log base (real_of_int x1)\<rfloor> \<le> \<lfloor>log base (real_of_int x2)\<rfloor>"
    by (rule floor_mono)
  then show ?thesis using False x b by (simp add: log_bin_exact_log)
qed

text \<open>
  Claim C3 says \<open>log_bin(x) = floor(log_base(x))\<close> for \<open>x > 0\<close> and \<open>log_bin(0) = 0\<close>.
  The guard gives 0 for every \<open>x \<le> 0\<close>. For \<open>x = 1000\<close> and base 10, where
  \<open>math.log(1000, 10.0)\<close> is the double 2.9999999999999996, the code returns 2, and
  \<open>floor(log_10(1000))\<close> is 3.
\<close>

theorem log_bin_misses_floor_log:
  "(x \<le> 0 \<longrightarrow> log_bin mlog x base = 0)
   \<and> (mlog 1000 10 = 3 - 1 / 2 ^ 51
        \<longrightarrow> log_bin mlog 1000 10 = 2 \<and> \<lfloor>log 10 (real_of_int 1000)\<rfloor> = (3::int))"
proof -
  have "mlog 1000 10 = 3 - 1 / 2 ^ 51 \<longrightarrow> log_bin mlog 1000 10 = 2"
  proof
    assume v: "mlog 1000 10 = 3 - 1 / 2 ^ 51"
    have "log_bin mlog 1000 10 = \<lfloor>mlog 1000 10\<rfloor>"
      by (simp add: log_bin_def Let_def)
    then show "log_bin mlog 1000 10 = 2"
      unfolding v by (simp only: floor_below_3)
  qed
  then show ?thesis
    using floor_log_10_1000 by (simp add: log_bin_nonpositive)
qed

theorem log_bin_misses_floor_log_witness:
  "(0::int) \<le> 0
   \<and> log_bin math_log_observed 0 10 = 0
   \<and> math_log_observed 1000 10 = 3 - 1 / 2 ^ 51
   \<and> log_bin math_log_observed 1000 10 = 2
   \<and> \<lfloor>log 10 (real_of_int 1000)\<rfloor> = (3::int)"
proof -
  have h: "math_log_observed 1000 10 = 3 - 1 / 2 ^ 51"
    by (simp add: math_log_observed_def)
  from log_bin_misses_floor_log [of 0 math_log_observed 10] h
  show ?thesis by simp
qed

end
